theory Spec2Isabelle
  imports Main
begin

section \<open>The explicit-path backend (\<^verbatim>\<open>src/path-seat.c\<close>)\<close>

text \<open>
  The backend keeps two registries in a context: the list of path records
  (\<^verbatim>\<open>input->path_list\<close>) and the list of seats (\<^verbatim>\<open>input->base.seat_list\<close>), each seat
  with its list of devices. The C code links these with intrusive lists and compares
  pointers, so every heap object that is compared by address carries its address here:
  a seat and a device have an address field, and a duplicated devnode string is its
  address together with its characters (the characters are never written after the
  duplication). Addresses come from one counter, \<open>next_addr\<close>; an address is never
  handed out twice. A \<^verbatim>\<open>free\<close> goes with the unlinking of what it frees, with one
  exception: \<^verbatim>\<open>path_device_change_seat\<close> frees a string that a record it leaves behind
  still points into (see there).
\<close>

subsection \<open>Data\<close>

record c_string =
  ptr :: nat
  chars :: string

text \<open>\<^verbatim>\<open>struct path_device\<close>: \<open>devnode\<close> is the duplicate made by \<^verbatim>\<open>safe_strdup\<close>,
  \<open>sysname\<close> the text that \<^verbatim>\<open>strrchr\<close> points at in the caller's string.\<close>

record path_device =
  devnode :: c_string
  sysname :: string

text \<open>\<^verbatim>\<open>struct evdev_device\<close>, the fields this file reads: its own address, the devnode
  pointer it was created from, and \<^verbatim>\<open>base.seat\<close>, the address of its seat.\<close>

record evdev_device =
  dev_addr :: nat
  evdev_devnode :: c_string
  evdev_sysname :: string
  base_seat :: nat

record libinput_seat =
  seat_addr :: nat
  physical_name :: string
  logical_name :: string
  refcount :: nat
  devices_list :: "evdev_device list"

datatype libinput_interface_backend = Path_backend | Foreign_backend

datatype log_priority = LOG_INFO | LOG_ERROR | LOG_BUG_CLIENT

datatype log_message =
    Failed_to_create_seat_name
  | Failed_to_create_seat
  | Not_using_input_device
  | Failed_to_create_input_device
  | Mismatching_backends

type_synonym log_entry = "log_priority \<times> log_message \<times> string \<times> string"

text \<open>What the driver adapter \<^verbatim>\<open>evdev_device_create\<close> can answer: a device, the
  sentinel \<^verbatim>\<open>EVDEV_UNHANDLED_DEVICE\<close>, or \<^verbatim>\<open>NULL\<close>.\<close>

datatype evdev_outcome = Evdev_created | Evdev_unhandled | Evdev_null

text \<open>
  \<^verbatim>\<open>struct path_input\<close> with its \<^verbatim>\<open>base\<close>. The last four fields are the world outside
  the file: \<open>calls\<close> counts the calls made so far to libc's \<^verbatim>\<open>strdup\<close> and to the
  adapter, \<open>strdup_succeeds n\<close> says whether the call numbered \<open>n\<close> (a \<^verbatim>\<open>strdup\<close>) returns
  a string, \<open>evdev_probe n path\<close> is the adapter's answer when call \<open>n\<close> opens \<open>path\<close>, and
  \<open>freed_text a\<close> is the text found through a \<open>sysname\<close> pointer whose target was freed,
  for the record with its devnode at address \<open>a\<close>. All three are arbitrary. \<^verbatim>\<open>zalloc\<close> and
  \<^verbatim>\<open>safe_strdup\<close> return or end the process; the model covers the runs in which they
  return.
\<close>

record path_input =
  interface_backend :: libinput_interface_backend
  seat_list :: "libinput_seat list"
  path_list :: "path_device list"
  logged :: "log_entry list"
  next_addr :: nat
  calls :: nat
  strdup_succeeds :: "nat \<Rightarrow> bool"
  evdev_probe :: "nat \<Rightarrow> string \<Rightarrow> evdev_outcome"
  freed_text :: "nat \<Rightarrow> string"

definition default_seat :: string where
  "default_seat = ''seat0''"

definition default_seat_name :: string where
  "default_seat_name = ''default''"

subsection \<open>Collaborators outside the file\<close>

text \<open>Modelled from the spec: the logging macros \<^verbatim>\<open>log_info\<close>, \<^verbatim>\<open>log_error\<close> and
  \<^verbatim>\<open>log_bug_client\<close> are not in the file. Spec 4.3 and 7: an informational log, an
  error log, a client-bug diagnostic. An entry keeps the priority, which message it is,
  and the two strings the message is formatted with.\<close>

definition log_msg :: "path_input \<Rightarrow> log_priority \<Rightarrow> log_message \<Rightarrow> string \<Rightarrow> string \<Rightarrow> path_input" where
  "log_msg st pri msg a b = st\<lparr>logged := logged st @ [(pri, msg, a, b)]\<rparr>"

text \<open>libc's \<^verbatim>\<open>strdup\<close>: the copy, or \<^verbatim>\<open>NULL\<close> when memory is exhausted.\<close>

definition strdup :: "path_input \<Rightarrow> string \<Rightarrow> string option \<times> path_input" where
  "strdup st s =
     ((if strdup_succeeds st (calls st) then Some s else None), st\<lparr>calls := Suc (calls st)\<rparr>)"

text \<open>\<^verbatim>\<open>strrchr\<close>: the suffix that starts at the last occurrence of the character.\<close>

fun strrchr :: "string \<Rightarrow> char \<Rightarrow> string option" where
  "strrchr [] c = None"
| "strrchr (x # xs) c =
     (case strrchr xs c of
        Some r \<Rightarrow> Some r
      | None \<Rightarrow> if x = c then Some (x # xs) else None)"

text \<open>A seat is reached through its address. An address that no registered seat has
  stands for a pointer to a seat that was destroyed; reading or updating through it
  finds nothing and changes nothing.\<close>

definition find_seat :: "path_input \<Rightarrow> nat \<Rightarrow> libinput_seat option" where
  "find_seat st a = find (\<lambda>s. seat_addr s = a) (seat_list st)"

definition update_seat :: "nat \<Rightarrow> (libinput_seat \<Rightarrow> libinput_seat) \<Rightarrow> path_input \<Rightarrow> path_input" where
  "update_seat a f st =
     st\<lparr>seat_list := map (\<lambda>s. if seat_addr s = a then f s else s) (seat_list st)\<rparr>"

text \<open>Modelled from the spec: \<^verbatim>\<open>libinput_seat_ref\<close> is not in the file. Spec 4.2:
  "ref(seat) / unref(seat): increment/decrement refCount".\<close>

definition libinput_seat_ref :: "path_input \<Rightarrow> nat \<Rightarrow> path_input" where
  "libinput_seat_ref st a = update_seat a (\<lambda>s. s\<lparr>refcount := refcount s + 1\<rparr>) st"

text \<open>Modelled from the spec: \<^verbatim>\<open>libinput_seat_unref\<close> is not in the file. Spec 4.2:
  "unref reaching 0 destroys the seat (unlinks from registry, releases memory)".\<close>

definition libinput_seat_unref :: "path_input \<Rightarrow> nat \<Rightarrow> path_input" where
  "libinput_seat_unref st a =
     (let st1 = update_seat a (\<lambda>s. s\<lparr>refcount := refcount s - 1\<rparr>) st
      in st1\<lparr>seat_list := filter (\<lambda>s. \<not> (seat_addr s = a \<and> refcount s = 0)) (seat_list st1)\<rparr>)"

text \<open>Modelled from the spec: \<^verbatim>\<open>libinput_seat_init\<close> is not in the file. Spec 4.2 and 4.3:
  the new seat has an empty device set, is linked into the registry, and its
  refCount is seeded to 1.\<close>

definition libinput_seat_init :: "path_input \<Rightarrow> nat \<Rightarrow> string \<Rightarrow> string \<Rightarrow> path_input" where
  "libinput_seat_init st a seat_name seat_logical_name =
     st\<lparr>seat_list :=
          \<lparr>seat_addr = a, physical_name = seat_name, logical_name = seat_logical_name,
           refcount = 1, devices_list = []\<rparr> # seat_list st\<rparr>"

text \<open>Modelled from the spec: the driver adapter \<^verbatim>\<open>evdev_device_create\<close> is not in the
  file. Spec 2, 3 and 4.3: it turns a devnode and a seat into a live device or the
  "unhandled" sentinel; a created device keeps the devnode it was given, is attached to
  the seat's device set in insertion order, and holds a reference to the seat by its
  membership. When it creates nothing it leaves the registries as they were.\<close>

definition evdev_device_create ::
  "path_input \<Rightarrow> nat \<Rightarrow> c_string \<Rightarrow> string \<Rightarrow> (evdev_outcome \<times> evdev_device option) \<times> path_input" where
  "evdev_device_create st seat dn sn =
     (let st1 = st\<lparr>calls := Suc (calls st)\<rparr>
      in case evdev_probe st (calls st) (chars dn) of
           Evdev_created \<Rightarrow>
             (let device = \<lparr>dev_addr = next_addr st1, evdev_devnode = dn, evdev_sysname = sn,
                            base_seat = seat\<rparr>;
                  st2 = st1\<lparr>next_addr := Suc (next_addr st1)\<rparr>;
                  st3 = update_seat seat
                          (\<lambda>s. s\<lparr>refcount := refcount s + 1,
                                 devices_list := devices_list s @ [device]\<rparr>) st2
              in ((Evdev_created, Some device), st3))
         | Evdev_unhandled \<Rightarrow> ((Evdev_unhandled, None), st1)
         | Evdev_null \<Rightarrow> ((Evdev_null, None), st1))"

text \<open>Modelled from the spec: \<^verbatim>\<open>evdev_device_remove\<close> is not in the file. Spec 4.3:
  "removes the device from its seat's device set and releases the device's underlying
  handle"; the reference the device held on its seat by membership goes with it.\<close>

definition evdev_device_remove :: "path_input \<Rightarrow> evdev_device \<Rightarrow> path_input" where
  "evdev_device_remove st device =
     (let st1 = update_seat (base_seat device)
                  (\<lambda>s. s\<lparr>devices_list :=
                           filter (\<lambda>d. dev_addr d \<noteq> dev_addr device) (devices_list s)\<rparr>) st
      in libinput_seat_unref st1 (base_seat device))"

subsection \<open>The functions of the file\<close>

text \<open>In the order of the file. \<^verbatim>\<open>path_seat_destroy\<close> only frees the seat that
  \<^verbatim>\<open>libinput_seat_unref\<close> has unlinked, and \<^verbatim>\<open>path_input_destroy\<close> frees the records of
  a context that is about to go; neither is a function of its own here.\<close>

text \<open>\<^verbatim>\<open>path_disable_device\<close>: look for the device in its seat's list; remove it when
  it is there.\<close>

definition path_disable_device :: "path_input \<Rightarrow> evdev_device \<Rightarrow> path_input" where
  "path_disable_device st device =
     (case find_seat st (base_seat device) of
        None \<Rightarrow> st
      | Some seat \<Rightarrow>
          if dev_addr device \<in> set (map dev_addr (devices_list seat))
          then evdev_device_remove st device
          else st)"

text \<open>
  \<^verbatim>\<open>path_input_disable\<close>. Both loops are \<^verbatim>\<open>list_for_each_safe\<close>: the successor is read
  before the body runs, and the body unlinks at most the element it visits, so each loop
  visits the elements that were in the list when it started.

  The function does nothing but call: \<^verbatim>\<open>libinput_seat_ref\<close>, \<^verbatim>\<open>path_disable_device\<close> and
  \<^verbatim>\<open>libinput_seat_unref\<close>. It is written here as the run of these calls, each with the
  context it leaves, so that what holds between two calls can be stated; the context that
  the function leaves is the one after its last call.
\<close>

datatype sweep_call = Seat_ref nat | Disable_device evdev_device | Seat_unref nat

fun sweep_call_run :: "path_input \<Rightarrow> sweep_call \<Rightarrow> path_input" where
  "sweep_call_run st (Seat_ref a) = libinput_seat_ref st a"
| "sweep_call_run st (Disable_device device) = path_disable_device st device"
| "sweep_call_run st (Seat_unref a) = libinput_seat_unref st a"

fun sweep_run :: "path_input \<Rightarrow> sweep_call list \<Rightarrow> (sweep_call \<times> path_input) list" where
  "sweep_run st [] = []"
| "sweep_run st (c # cs) = (c, sweep_call_run st c) # sweep_run (sweep_call_run st c) cs"

definition sweep_end :: "path_input \<Rightarrow> (sweep_call \<times> path_input) list \<Rightarrow> path_input" where
  "sweep_end st run = last (st # map snd run)"

definition seat_devices :: "path_input \<Rightarrow> nat \<Rightarrow> evdev_device list" where
  "seat_devices st a = (case find_seat st a of None \<Rightarrow> [] | Some s \<Rightarrow> devices_list s)"

text \<open>The body of the outer loop for the seat at address \<open>a\<close>: the inner loop runs over
  the device list that the seat has once the reference is taken.\<close>

definition path_input_disable_seat_run ::
  "path_input \<Rightarrow> nat \<Rightarrow> (sweep_call \<times> path_input) list" where
  "path_input_disable_seat_run st a =
     sweep_run st
       (Seat_ref a # map Disable_device (seat_devices (libinput_seat_ref st a) a) @ [Seat_unref a])"

definition path_input_disable_seat :: "path_input \<Rightarrow> nat \<Rightarrow> path_input" where
  "path_input_disable_seat st a = sweep_end st (path_input_disable_seat_run st a)"

fun path_input_disable_loop :: "path_input \<Rightarrow> nat list \<Rightarrow> (sweep_call \<times> path_input) list" where
  "path_input_disable_loop st [] = []"
| "path_input_disable_loop st (a # as) =
     path_input_disable_seat_run st a @ path_input_disable_loop (path_input_disable_seat st a) as"

definition path_input_disable_run :: "path_input \<Rightarrow> (sweep_call \<times> path_input) list" where
  "path_input_disable_run st = path_input_disable_loop st (map seat_addr (seat_list st))"

definition path_input_disable :: "path_input \<Rightarrow> path_input" where
  "path_input_disable st = sweep_end st (path_input_disable_run st)"

text \<open>\<^verbatim>\<open>path_seat_create\<close>: \<^verbatim>\<open>zalloc\<close>, then \<^verbatim>\<open>libinput_seat_init\<close>.\<close>

definition path_seat_create :: "path_input \<Rightarrow> string \<Rightarrow> string \<Rightarrow> nat option \<times> path_input" where
  "path_seat_create st seat_name seat_logical_name =
     (let a = next_addr st;
          st1 = st\<lparr>next_addr := Suc a\<rparr>
      in (Some a, libinput_seat_init st1 a seat_name seat_logical_name))"

definition path_seat_get_named :: "path_input \<Rightarrow> string \<Rightarrow> string \<Rightarrow> libinput_seat option" where
  "path_seat_get_named st seat_name_physical seat_name_logical =
     find (\<lambda>s. physical_name s = seat_name_physical \<and> logical_name s = seat_name_logical)
       (seat_list st)"

text \<open>\<^verbatim>\<open>path_device_enable\<close>. The calibration read and the \<^verbatim>\<open>output_name\<close> store after a
  successful creation touch the device only.\<close>

definition path_device_enable ::
  "path_input \<Rightarrow> path_device \<Rightarrow> string option \<Rightarrow> evdev_device option \<times> path_input" where
  "path_device_enable st dev seat_logical_name_override =
     (let seat_name = default_seat;
          (seat_logical_name, st1) =
             (case seat_logical_name_override of
                Some n \<Rightarrow> (Some n, st)
              | None \<Rightarrow> strdup st default_seat_name)
      in case seat_logical_name of
           None \<Rightarrow>
             (None, log_msg st1 LOG_ERROR Failed_to_create_seat_name
                      (sysname dev) (chars (devnode dev)))
         | Some lname \<Rightarrow>
             (let (seat, st2) =
                    (case path_seat_get_named st1 seat_name lname of
                       Some s \<Rightarrow> (Some (seat_addr s), libinput_seat_ref st1 (seat_addr s))
                     | None \<Rightarrow> path_seat_create st1 seat_name lname)
              in case seat of
                   None \<Rightarrow>
                     (None, log_msg st2 LOG_INFO Failed_to_create_seat
                              (sysname dev) (chars (devnode dev)))
                 | Some sa \<Rightarrow>
                     (let ((outcome, device), st3) =
                            evdev_device_create st2 sa (devnode dev) (sysname dev);
                          st4 = libinput_seat_unref st3 sa
                      in case outcome of
                           Evdev_unhandled \<Rightarrow>
                             (None, log_msg st4 LOG_INFO Not_using_input_device
                                      (sysname dev) (chars (devnode dev)))
                         | Evdev_null \<Rightarrow>
                             (None, log_msg st4 LOG_INFO Failed_to_create_input_device
                                      (sysname dev) (chars (devnode dev)))
                         | Evdev_created \<Rightarrow> (device, st4))))"

text \<open>\<^verbatim>\<open>path_input_enable\<close>: the loop over the path list stops at the first record that
  yields no device, after the sweep.\<close>

fun path_input_enable_loop :: "path_input \<Rightarrow> path_device list \<Rightarrow> int \<times> path_input" where
  "path_input_enable_loop st [] = (0, st)"
| "path_input_enable_loop st (dev # devs) =
     (case path_device_enable st dev None of
        (None, st1) \<Rightarrow> (- 1, path_input_disable st1)
      | (Some device, st1) \<Rightarrow> path_input_enable_loop st1 devs)"

definition path_input_enable :: "path_input \<Rightarrow> int \<times> path_input" where
  "path_input_enable st = path_input_enable_loop st (path_list st)"

text \<open>\<^verbatim>\<open>path_create_device\<close>: \<^verbatim>\<open>list_insert\<close> links the new record right after the
  list head. On failure \<^verbatim>\<open>list_remove\<close> unlinks that record; it carries a devnode
  pointer that no other record has, so \<open>remove1\<close> takes out exactly it.\<close>

definition path_create_device ::
  "path_input \<Rightarrow> string \<Rightarrow> string option \<Rightarrow> evdev_device option \<times> path_input" where
  "path_create_device st dn seat_name =
     (let dev = \<lparr>devnode = \<lparr>ptr = next_addr st, chars = dn\<rparr>,
                 sysname = (case strrchr dn (CHR ''/'') of Some r \<Rightarrow> tl r | None \<Rightarrow> [])\<rparr>;
          st1 = st\<lparr>next_addr := Suc (next_addr st), path_list := dev # path_list st\<rparr>;
          (device, st2) = path_device_enable st1 dev seat_name
      in case device of
           None \<Rightarrow> (None, st2\<lparr>path_list := remove1 dev (path_list st2)\<rparr>)
         | Some d \<Rightarrow> (Some d, st2))"

text \<open>The scan of \<^verbatim>\<open>libinput_path_remove_device\<close>: unlink the first record whose
  devnode pointer is the device's, and stop.\<close>

fun path_list_remove :: "path_device list \<Rightarrow> nat \<Rightarrow> path_device list" where
  "path_list_remove [] p = []"
| "path_list_remove (dev # devs) p =
     (if ptr (devnode dev) = p then devs else dev # path_list_remove devs p)"

definition libinput_path_remove_device :: "path_input \<Rightarrow> evdev_device \<Rightarrow> path_input" where
  "libinput_path_remove_device st device =
     (if interface_backend st \<noteq> Path_backend
      then log_msg st LOG_BUG_CLIENT Mismatching_backends [] []
      else
        (let st1 = st\<lparr>path_list := path_list_remove (path_list st) (ptr (evdev_devnode device))\<rparr>;
             seat = base_seat device;
             st2 = libinput_seat_ref st1 seat;
             st3 = path_disable_device st2 device
         in libinput_seat_unref st3 seat))"

text \<open>
  \<^verbatim>\<open>path_device_change_seat\<close> ends with \<^verbatim>\<open>free(devnode)\<close> on the copy it handed to
  \<^verbatim>\<open>path_create_device\<close>. That function keeps a duplicate of the string as the record's
  devnode, but it points the record's \<^verbatim>\<open>sysname\<close> into its argument (\<^verbatim>\<open>strrchr\<close> on
  \<^verbatim>\<open>devnode\<close>, not on \<^verbatim>\<open>dev->devnode\<close>), and \<^verbatim>\<open>path_device_enable\<close> hands that pointer on
  to the adapter. So when a device was created and the string has a \<^verbatim>\<open>/\<close>, the \<^verbatim>\<open>free\<close>
  leaves the \<open>sysname\<close> of the new record pointing into freed storage. What is read
  there is not determined by the program; it is \<open>freed_text\<close> from then on. The file does
  not show whether the adapter copied the sysname it was given, so the same is assumed
  of the devices made from the record: nothing is known of their sysname afterwards.
  Without a \<^verbatim>\<open>/\<close> the sysname is the constant \<^verbatim>\<open>""\<close>, and without a device the record is
  already unlinked and freed: nothing is left pointing into the copy.
\<close>

definition forget_record_sysname :: "nat \<Rightarrow> string \<Rightarrow> path_device \<Rightarrow> path_device" where
  "forget_record_sysname p junk r = (if ptr (devnode r) = p then r\<lparr>sysname := junk\<rparr> else r)"

definition forget_device_sysname :: "nat \<Rightarrow> string \<Rightarrow> evdev_device \<Rightarrow> evdev_device" where
  "forget_device_sysname p junk x =
     (if ptr (evdev_devnode x) = p then x\<lparr>evdev_sysname := junk\<rparr> else x)"

definition forget_sysname :: "nat \<Rightarrow> string \<Rightarrow> path_input \<Rightarrow> path_input" where
  "forget_sysname p junk st =
     st\<lparr>path_list := map (forget_record_sysname p junk) (path_list st),
        seat_list :=
          map (\<lambda>s. s\<lparr>devices_list := map (forget_device_sysname p junk) (devices_list s)\<rparr>)
            (seat_list st)\<rparr>"

definition free_devnode_copy :: "path_input \<Rightarrow> string \<Rightarrow> evdev_device option \<Rightarrow> path_input" where
  "free_devnode_copy st dn created =
     (case created of
        None \<Rightarrow> st
      | Some d \<Rightarrow>
          (case strrchr dn (CHR ''/'') of
             None \<Rightarrow> st
           | Some r \<Rightarrow>
               forget_sysname (ptr (evdev_devnode d)) (freed_text st (ptr (evdev_devnode d))) st))"

definition path_device_change_seat ::
  "path_input \<Rightarrow> evdev_device \<Rightarrow> string option \<Rightarrow> int \<times> path_input" where
  "path_device_change_seat st device seat_name =
     (case strdup st (chars (evdev_devnode device)) of
        (None, st1) \<Rightarrow> (- 1, st1)
      | (Some dn, st1) \<Rightarrow>
          (let st2 = libinput_path_remove_device st1 device;
               (d, st3) = path_create_device st2 dn seat_name;
               st4 = free_devnode_copy st3 dn d
           in ((if d = None then - 1 else 0), st4)))"

definition libinput_path_add_device :: "path_input \<Rightarrow> string \<Rightarrow> evdev_device option \<times> path_input" where
  "libinput_path_add_device st path =
     (if interface_backend st \<noteq> Path_backend
      then (None, log_msg st LOG_BUG_CLIENT Mismatching_backends [] [])
      else path_create_device st path None)"

text \<open>\<^verbatim>\<open>libinput_path_create_context\<close>: \<^verbatim>\<open>NULL\<close> without an interface or when
  \<^verbatim>\<open>libinput_init\<close> fails; otherwise a context of this backend with both lists empty.\<close>

definition libinput_path_create_context ::
  "bool \<Rightarrow> bool \<Rightarrow> (nat \<Rightarrow> bool) \<Rightarrow> (nat \<Rightarrow> string \<Rightarrow> evdev_outcome) \<Rightarrow> (nat \<Rightarrow> string) \<Rightarrow>
   path_input option" where
  "libinput_path_create_context interface init_ok sd ep ft =
     (if \<not> interface then None
      else if \<not> init_ok then None
      else Some \<lparr>interface_backend = Path_backend, seat_list = [], path_list = [],
                 logged = [], next_addr = 0, calls = 0, strdup_succeeds = sd,
                 evdev_probe = ep, freed_text = ft\<rparr>)"

subsection \<open>The public operations, as moves of a client\<close>

text \<open>
  A client drives a context through the exported functions and, by way of the backend
  table \<^verbatim>\<open>interface_backend\<close>, through resume, suspend and the change of a device's
  logical seat. A device handle is the device record the client holds.
\<close>

datatype api_call =
    Add_device string
  | Remove_device evdev_device
  | Change_seat evdev_device "string option"
  | Resume
  | Suspend

fun api_step :: "path_input \<Rightarrow> api_call \<Rightarrow> path_input" where
  "api_step st (Add_device path) = snd (libinput_path_add_device st path)"
| "api_step st (Remove_device device) = libinput_path_remove_device st device"
| "api_step st (Change_seat device seat_name) = snd (path_device_change_seat st device seat_name)"
| "api_step st Resume = snd (path_input_enable st)"
| "api_step st Suspend = path_input_disable st"

subsection \<open>Well-formed contexts\<close>

text \<open>
  What the intrusive lists and the allocator give for free in C, and what the reference
  counts are meant to keep: seats have distinct addresses and distinct name pairs, every
  address in use lies below \<open>next_addr\<close>, a device is linked in the list of the seat
  that its \<^verbatim>\<open>base.seat\<close> points at, a registered seat has a positive reference count
  that covers its devices, and the devnode strings of the path records are distinct
  allocations. \<open>held\<close> is the seat on which the running operation holds one reference of
  its own, if any.
\<close>

definition seat_key :: "libinput_seat \<Rightarrow> string \<times> string" where
  "seat_key s = (physical_name s, logical_name s)"

definition wf_seat :: "nat \<Rightarrow> nat option \<Rightarrow> libinput_seat \<Rightarrow> bool" where
  "wf_seat n held s \<longleftrightarrow>
     seat_addr s < n \<and> 1 \<le> refcount s \<and>
     length (devices_list s) + (if held = Some (seat_addr s) then 1 else 0) \<le> refcount s \<and>
     distinct (map dev_addr (devices_list s)) \<and>
     list_all (\<lambda>d. base_seat d = seat_addr s \<and> dev_addr d < n) (devices_list s)"

definition wf_seats :: "nat \<Rightarrow> nat option \<Rightarrow> libinput_seat list \<Rightarrow> bool" where
  "wf_seats n held l \<longleftrightarrow>
     distinct (map seat_addr l) \<and> distinct (map seat_key l) \<and> list_all (wf_seat n held) l"

definition wf_paths :: "nat \<Rightarrow> path_device list \<Rightarrow> bool" where
  "wf_paths n l \<longleftrightarrow>
     distinct (map (\<lambda>r. ptr (devnode r)) l) \<and> list_all (\<lambda>r. ptr (devnode r) < n) l"

definition wf_held :: "nat option \<Rightarrow> path_input \<Rightarrow> bool" where
  "wf_held held st \<longleftrightarrow>
     wf_seats (next_addr st) held (seat_list st) \<and> wf_paths (next_addr st) (path_list st)"

definition wf_input :: "path_input \<Rightarrow> bool" where
  "wf_input st = wf_held None st"

text \<open>The seat at an address is registered and has a reference beyond those of its
  devices: somebody holds it.\<close>

definition seat_held :: "path_input \<Rightarrow> nat \<Rightarrow> bool" where
  "seat_held st a \<longleftrightarrow>
     (\<exists>s\<in>set (seat_list st). seat_addr s = a \<and> length (devices_list s) < refcount s)"

text \<open>A device is in the list of no seat at the address its \<^verbatim>\<open>base.seat\<close> points to.\<close>

definition device_unlinked :: "path_input \<Rightarrow> evdev_device \<Rightarrow> bool" where
  "device_unlinked st d \<longleftrightarrow>
     (\<forall>s\<in>set (seat_list st). seat_addr s = base_seat d \<longrightarrow>
        dev_addr d \<notin> dev_addr ` set (devices_list s))"

text \<open>No seat at an address has a device.\<close>

definition seat_emptied :: "path_input \<Rightarrow> nat \<Rightarrow> bool" where
  "seat_emptied st a \<longleftrightarrow>
     (\<forall>s\<in>set (seat_list st). seat_addr s = a \<longrightarrow> devices_list s = [])"

subsection \<open>Seat lists\<close>

text \<open>The three ways in which the operations change the list of seats, and what a sweep
  over all seats leaves: every seat loses its devices and one reference for each of
  them, and a seat that is left without a reference is gone.\<close>

definition seats_ref :: "nat \<Rightarrow> libinput_seat list \<Rightarrow> libinput_seat list" where
  "seats_ref a l = map (\<lambda>s. if seat_addr s = a then s\<lparr>refcount := refcount s + 1\<rparr> else s) l"

definition seats_unref :: "nat \<Rightarrow> libinput_seat list \<Rightarrow> libinput_seat list" where
  "seats_unref a l =
     filter (\<lambda>s. \<not> (seat_addr s = a \<and> refcount s = 0))
       (map (\<lambda>s. if seat_addr s = a then s\<lparr>refcount := refcount s - 1\<rparr> else s) l)"

definition seats_attach :: "nat \<Rightarrow> evdev_device \<Rightarrow> libinput_seat list \<Rightarrow> libinput_seat list" where
  "seats_attach a d l =
     map (\<lambda>s. if seat_addr s = a
              then s\<lparr>refcount := refcount s + 1, devices_list := devices_list s @ [d]\<rparr>
              else s) l"

definition swept :: "libinput_seat list \<Rightarrow> libinput_seat list" where
  "swept l = map (\<lambda>s. s\<lparr>refcount := refcount s - length (devices_list s), devices_list := []\<rparr>)
               (filter (\<lambda>s. length (devices_list s) < refcount s) l)"

subsection \<open>Example contexts\<close>

text \<open>A fresh context whose allocations all succeed and whose adapter accepts every
  path, and the same context after \<^verbatim>\<open>/dev/input/event3\<close> was added to it.\<close>

definition ctx_empty :: path_input where
  "ctx_empty = \<lparr>interface_backend = Path_backend, seat_list = [], path_list = [],
     logged = [], next_addr = 0, calls = 0, strdup_succeeds = (\<lambda>n. True),
     evdev_probe = (\<lambda>n p. Evdev_created), freed_text = (\<lambda>a. ''(freed)'')\<rparr>"

definition rec_event3 :: path_device where
  "rec_event3 = \<lparr>devnode = \<lparr>ptr = 0, chars = ''/dev/input/event3''\<rparr>, sysname = ''event3''\<rparr>"

definition dev_event3 :: evdev_device where
  "dev_event3 = \<lparr>dev_addr = 2, evdev_devnode = \<lparr>ptr = 0, chars = ''/dev/input/event3''\<rparr>,
     evdev_sysname = ''event3'', base_seat = 1\<rparr>"

definition ctx_event3 :: path_input where
  "ctx_event3 = \<lparr>interface_backend = Path_backend,
     seat_list = [\<lparr>seat_addr = 1, physical_name = ''seat0'', logical_name = ''default'',
                   refcount = 1, devices_list = [dev_event3]\<rparr>],
     path_list = [rec_event3],
     logged = [], next_addr = 3, calls = 2, strdup_succeeds = (\<lambda>n. True),
     evdev_probe = (\<lambda>n p. Evdev_created), freed_text = (\<lambda>a. ''(freed)'')\<rparr>"

text \<open>The context of the example above when the adapter, from now on, declines every path.\<close>

definition ctx_unhandled :: path_input where
  "ctx_unhandled =
     ctx_event3\<lparr>evdev_probe := (\<lambda>n p. if n < 2 then Evdev_created else Evdev_unhandled)\<rparr>"

text \<open>A fresh context whose adapter fails on every path.\<close>

definition ctx_rejecting :: path_input where
  "ctx_rejecting = ctx_empty\<lparr>evdev_probe := (\<lambda>n p. Evdev_null)\<rparr>"

text \<open>Unlinking a device from the list of the seat at an address.\<close>

definition seats_detach :: "nat \<Rightarrow> evdev_device \<Rightarrow> libinput_seat list \<Rightarrow> libinput_seat list" where
  "seats_detach a device l =
     map (\<lambda>s. if seat_addr s = a
              then s\<lparr>devices_list := filter (\<lambda>d. dev_addr d \<noteq> dev_addr device) (devices_list s)\<rparr>
              else s) l"

text \<open>The devices of the seat that records enabled without an override land on.\<close>

definition default_seat_devices :: "path_input \<Rightarrow> evdev_device list" where
  "default_seat_devices st =
     (case path_seat_get_named st default_seat default_seat_name of
        None \<Rightarrow> []
      | Some s \<Rightarrow> devices_list s)"

text \<open>The context of the example after a suspend: the record stays, the seat is gone.\<close>

definition ctx_suspended :: path_input where
  "ctx_suspended = ctx_event3\<lparr>seat_list := []\<rparr>"

text \<open>The context of the example when memory runs out after the two calls that built it.\<close>

definition ctx_exhausted :: path_input where
  "ctx_exhausted = ctx_event3\<lparr>strdup_succeeds := (\<lambda>n. n < 2)\<rparr>"

text \<open>A call hands over no empty string: neither as the path to add nor as the devnode
  of the device whose seat is to change.\<close>

fun nonempty_path_call :: "api_call \<Rightarrow> bool" where
  "nonempty_path_call (Add_device path) = (path \<noteq> [])"
| "nonempty_path_call (Change_seat device seat_name) = (chars (evdev_devnode device) \<noteq> [])"
| "nonempty_path_call (Remove_device device) = True"
| "nonempty_path_call Resume = True"
| "nonempty_path_call Suspend = True"

text \<open>The context of the example after a client took a reference on its seat.\<close>

definition ctx_referenced :: path_input where
  "ctx_referenced = libinput_seat_ref ctx_event3 1"

section \<open>What each operation leaves alone\<close>

text \<open>Which fields of the context an operation can change at all: the seat
  operations, the sweep and the adapter never write the path list, the backend or the
  world outside.\<close>

lemma update_seat_fields [simp]:
  "path_list (update_seat a f st) = path_list st"
  "interface_backend (update_seat a f st) = interface_backend st"
  "next_addr (update_seat a f st) = next_addr st"
  "calls (update_seat a f st) = calls st"
  "strdup_succeeds (update_seat a f st) = strdup_succeeds st"
  "evdev_probe (update_seat a f st) = evdev_probe st"
  "freed_text (update_seat a f st) = freed_text st"
  "logged (update_seat a f st) = logged st"
  by (simp_all add: update_seat_def)

lemma libinput_seat_ref_fields [simp]:
  "path_list (libinput_seat_ref st a) = path_list st"
  "interface_backend (libinput_seat_ref st a) = interface_backend st"
  "next_addr (libinput_seat_ref st a) = next_addr st"
  "calls (libinput_seat_ref st a) = calls st"
  "strdup_succeeds (libinput_seat_ref st a) = strdup_succeeds st"
  "evdev_probe (libinput_seat_ref st a) = evdev_probe st"
  "freed_text (libinput_seat_ref st a) = freed_text st"
  "logged (libinput_seat_ref st a) = logged st"
  by (simp_all add: libinput_seat_ref_def)

lemma libinput_seat_unref_fields [simp]:
  "path_list (libinput_seat_unref st a) = path_list st"
  "interface_backend (libinput_seat_unref st a) = interface_backend st"
  "next_addr (libinput_seat_unref st a) = next_addr st"
  "calls (libinput_seat_unref st a) = calls st"
  "strdup_succeeds (libinput_seat_unref st a) = strdup_succeeds st"
  "evdev_probe (libinput_seat_unref st a) = evdev_probe st"
  "freed_text (libinput_seat_unref st a) = freed_text st"
  "logged (libinput_seat_unref st a) = logged st"
  by (simp_all add: libinput_seat_unref_def Let_def)

lemma log_msg_fields [simp]:
  "path_list (log_msg st p m a b) = path_list st"
  "seat_list (log_msg st p m a b) = seat_list st"
  "interface_backend (log_msg st p m a b) = interface_backend st"
  "next_addr (log_msg st p m a b) = next_addr st"
  "calls (log_msg st p m a b) = calls st"
  "strdup_succeeds (log_msg st p m a b) = strdup_succeeds st"
  "evdev_probe (log_msg st p m a b) = evdev_probe st"
  "freed_text (log_msg st p m a b) = freed_text st"
  "logged (log_msg st p m a b) = logged st @ [(p, m, a, b)]"
  by (simp_all add: log_msg_def)

lemma evdev_device_create_fields [simp]:
  "path_list (snd (evdev_device_create st seat dn sn)) = path_list st"
  "interface_backend (snd (evdev_device_create st seat dn sn)) = interface_backend st"
  "calls (snd (evdev_device_create st seat dn sn)) = Suc (calls st)"
  "strdup_succeeds (snd (evdev_device_create st seat dn sn)) = strdup_succeeds st"
  "evdev_probe (snd (evdev_device_create st seat dn sn)) = evdev_probe st"
  "freed_text (snd (evdev_device_create st seat dn sn)) = freed_text st"
  "logged (snd (evdev_device_create st seat dn sn)) = logged st"
  by (simp_all add: evdev_device_create_def Let_def split: evdev_outcome.splits)

lemma evdev_device_remove_fields [simp]:
  "path_list (evdev_device_remove st d) = path_list st"
  "interface_backend (evdev_device_remove st d) = interface_backend st"
  "next_addr (evdev_device_remove st d) = next_addr st"
  "calls (evdev_device_remove st d) = calls st"
  "strdup_succeeds (evdev_device_remove st d) = strdup_succeeds st"
  "evdev_probe (evdev_device_remove st d) = evdev_probe st"
  "freed_text (evdev_device_remove st d) = freed_text st"
  "logged (evdev_device_remove st d) = logged st"
  by (simp_all add: evdev_device_remove_def Let_def)

lemma path_disable_device_fields [simp]:
  "path_list (path_disable_device st d) = path_list st"
  "interface_backend (path_disable_device st d) = interface_backend st"
  "next_addr (path_disable_device st d) = next_addr st"
  "calls (path_disable_device st d) = calls st"
  "strdup_succeeds (path_disable_device st d) = strdup_succeeds st"
  "evdev_probe (path_disable_device st d) = evdev_probe st"
  "freed_text (path_disable_device st d) = freed_text st"
  "logged (path_disable_device st d) = logged st"
  by (simp_all add: path_disable_device_def split: option.splits)

lemma foldl_path_disable_device_fields [simp]:
  "path_list (foldl path_disable_device st ds) = path_list st"
  "interface_backend (foldl path_disable_device st ds) = interface_backend st"
  "next_addr (foldl path_disable_device st ds) = next_addr st"
  "calls (foldl path_disable_device st ds) = calls st"
  "strdup_succeeds (foldl path_disable_device st ds) = strdup_succeeds st"
  "evdev_probe (foldl path_disable_device st ds) = evdev_probe st"
  "freed_text (foldl path_disable_device st ds) = freed_text st"
  "logged (foldl path_disable_device st ds) = logged st"
  by (induction ds arbitrary: st; simp)+

text \<open>The sweep as a fold: the context after the last call of a run is the one that
  folding the calls gives.\<close>

lemma sweep_end_sweep_run: "sweep_end st (sweep_run st cs) = foldl sweep_call_run st cs"
  by (induction cs arbitrary: st) (simp_all add: sweep_end_def)

lemma sweep_end_append: "sweep_end st (r1 @ r2) = sweep_end (sweep_end st r1) r2"
  by (cases "r2 = []") (simp_all add: sweep_end_def)

lemma foldl_Disable_device:
  "foldl sweep_call_run st (map Disable_device ds) = foldl path_disable_device st ds"
  by (induction ds arbitrary: st) simp_all

lemma path_input_disable_seat_fold:
  "path_input_disable_seat st a =
     (let st1 = libinput_seat_ref st a;
          st2 = foldl path_disable_device st1 (seat_devices st1 a)
      in libinput_seat_unref st2 a)"
  unfolding path_input_disable_seat_def path_input_disable_seat_run_def sweep_end_sweep_run
  by (simp add: foldl_Disable_device Let_def)

lemma sweep_end_path_input_disable_loop:
  "sweep_end st (path_input_disable_loop st as) = foldl path_input_disable_seat st as"
proof (induction as arbitrary: st)
  case Nil
  then show ?case by (simp add: sweep_end_def)
next
  case (Cons a as)
  show ?case
    using Cons [of "path_input_disable_seat st a"]
    by (simp add: sweep_end_append path_input_disable_seat_def)
qed

lemma path_input_disable_fold:
  "path_input_disable st = foldl path_input_disable_seat st (map seat_addr (seat_list st))"
  by (simp add: path_input_disable_def path_input_disable_run_def
      sweep_end_path_input_disable_loop)

lemma path_input_disable_seat_fields [simp]:
  "path_list (path_input_disable_seat st a) = path_list st"
  "interface_backend (path_input_disable_seat st a) = interface_backend st"
  "next_addr (path_input_disable_seat st a) = next_addr st"
  "calls (path_input_disable_seat st a) = calls st"
  "strdup_succeeds (path_input_disable_seat st a) = strdup_succeeds st"
  "evdev_probe (path_input_disable_seat st a) = evdev_probe st"
  "freed_text (path_input_disable_seat st a) = freed_text st"
  "logged (path_input_disable_seat st a) = logged st"
  by (simp_all add: path_input_disable_seat_fold Let_def)

lemma foldl_path_input_disable_seat_fields [simp]:
  "path_list (foldl path_input_disable_seat st as) = path_list st"
  "interface_backend (foldl path_input_disable_seat st as) = interface_backend st"
  "next_addr (foldl path_input_disable_seat st as) = next_addr st"
  "calls (foldl path_input_disable_seat st as) = calls st"
  "strdup_succeeds (foldl path_input_disable_seat st as) = strdup_succeeds st"
  "evdev_probe (foldl path_input_disable_seat st as) = evdev_probe st"
  "freed_text (foldl path_input_disable_seat st as) = freed_text st"
  "logged (foldl path_input_disable_seat st as) = logged st"
  by (induction as arbitrary: st; simp)+

lemma path_input_disable_fields [simp]:
  "path_list (path_input_disable st) = path_list st"
  "interface_backend (path_input_disable st) = interface_backend st"
  "next_addr (path_input_disable st) = next_addr st"
  "calls (path_input_disable st) = calls st"
  "strdup_succeeds (path_input_disable st) = strdup_succeeds st"
  "evdev_probe (path_input_disable st) = evdev_probe st"
  "freed_text (path_input_disable st) = freed_text st"
  "logged (path_input_disable st) = logged st"
  by (simp_all add: path_input_disable_fold)

lemma path_device_enable_fields [simp]:
  "path_list (snd (path_device_enable st dev ov)) = path_list st"
  "interface_backend (snd (path_device_enable st dev ov)) = interface_backend st"
  "strdup_succeeds (snd (path_device_enable st dev ov)) = strdup_succeeds st"
  "evdev_probe (snd (path_device_enable st dev ov)) = evdev_probe st"
  "freed_text (snd (path_device_enable st dev ov)) = freed_text st"
  by (simp_all add: path_device_enable_def Let_def strdup_def path_seat_create_def
        libinput_seat_init_def split_beta
      split: option.splits evdev_outcome.splits prod.splits)

section \<open>Well-formedness is kept\<close>

text \<open>Every operation of the file takes a well-formed context to a well-formed one,
  whatever device handle it is given and whatever the adapter and the allocator answer.
  A fresh context is well-formed, so every context that a client can reach is
  (\<open>wf_input_reachable\<close> below): the theorems that assume it speak about all of them.\<close>

lemma seat_list_update_seat [simp]:
  "seat_list (update_seat a f st) = map (\<lambda>s. if seat_addr s = a then f s else s) (seat_list st)"
  by (simp add: update_seat_def)

lemma seat_list_ref:
  "seat_list (libinput_seat_ref st a) =
     map (\<lambda>s. if seat_addr s = a then s\<lparr>refcount := refcount s + 1\<rparr> else s) (seat_list st)"
  by (simp add: libinput_seat_ref_def)

lemma seat_list_unref:
  "seat_list (libinput_seat_unref st a) =
     filter (\<lambda>s. \<not> (seat_addr s = a \<and> refcount s = 0))
       (map (\<lambda>s. if seat_addr s = a then s\<lparr>refcount := refcount s - 1\<rparr> else s) (seat_list st))"
  unfolding libinput_seat_unref_def Let_def update_seat_def by simp

lemma wf_seat_mono: "wf_seat n h s \<Longrightarrow> n \<le> m \<Longrightarrow> wf_seat m h s"
  by (auto simp: wf_seat_def list_all_iff)

lemma wf_seats_mono: "wf_seats n h l \<Longrightarrow> n \<le> m \<Longrightarrow> wf_seats m h l"
  by (auto simp: wf_seats_def list_all_iff intro: wf_seat_mono)

lemma wf_paths_mono: "wf_paths n l \<Longrightarrow> n \<le> m \<Longrightarrow> wf_paths m l"
  by (auto simp: wf_paths_def list_all_iff)

lemma wf_seats_filter_map:
  assumes wf: "wf_seats n h l"
    and addr: "\<And>s. seat_addr (g s) = seat_addr s"
    and key: "\<And>s. seat_key (g s) = seat_key s"
    and elem: "\<And>s. s \<in> set l \<Longrightarrow> wf_seat n h s \<Longrightarrow> P (g s) \<Longrightarrow> wf_seat n' h' (g s)"
  shows "wf_seats n' h' (filter P (map g l))"
proof -
  have a: "map seat_addr (map g l) = map seat_addr l"
    by (simp add: addr)
  have k: "map seat_key (map g l) = map seat_key l"
    by (simp add: key)
  have d1: "distinct (map seat_addr (filter P (map g l)))"
    using wf a by (simp add: wf_seats_def distinct_map_filter del: map_map)
  have d2: "distinct (map seat_key (filter P (map g l)))"
    using wf k by (simp add: wf_seats_def distinct_map_filter del: map_map)
  have e: "list_all (wf_seat n' h') (filter P (map g l))"
    using wf elem by (auto simp: wf_seats_def list_all_iff)
  show ?thesis
    using d1 d2 e by (simp add: wf_seats_def)
qed

lemma wf_seats_map:
  assumes wf: "wf_seats n h l"
    and addr: "\<And>s. seat_addr (g s) = seat_addr s"
    and key: "\<And>s. seat_key (g s) = seat_key s"
    and elem: "\<And>s. s \<in> set l \<Longrightarrow> wf_seat n h s \<Longrightarrow> wf_seat n' h' (g s)"
  shows "wf_seats n' h' (map g l)"
  using wf_seats_filter_map [OF wf addr key, of "\<lambda>_. True" n' h'] elem by simp

lemma wf_seats_ref:
  "wf_seats n None l \<Longrightarrow>
   wf_seats n (Some a) (map (\<lambda>s. if seat_addr s = a then s\<lparr>refcount := refcount s + 1\<rparr> else s) l)"
  by (erule wf_seats_map) (auto simp add: seat_key_def wf_seat_def)

lemma wf_seats_unref:
  "wf_seats n (Some a) l \<Longrightarrow>
   wf_seats n None (filter (\<lambda>s. \<not> (seat_addr s = a \<and> refcount s = 0))
       (map (\<lambda>s. if seat_addr s = a then s\<lparr>refcount := refcount s - 1\<rparr> else s) l))"
  by (erule wf_seats_filter_map) (auto simp add: seat_key_def wf_seat_def split: if_splits)

lemma wf_held_ref: "wf_held None st \<Longrightarrow> wf_held (Some a) (libinput_seat_ref st a)"
  by (simp add: wf_held_def seat_list_ref wf_seats_ref)

lemma wf_held_unref:
  assumes "wf_held (Some a) st"
  shows "wf_held None (libinput_seat_unref st a)"
proof -
  have "wf_seats (next_addr st) None (seat_list (libinput_seat_unref st a))"
    unfolding seat_list_unref using assms by (intro wf_seats_unref) (simp add: wf_held_def)
  then show ?thesis
    using assms by (simp add: wf_held_def)
qed

lemma wf_paths_Suc [simp]: "wf_paths n l \<Longrightarrow> wf_paths (Suc n) l"
  by (erule wf_paths_mono) simp

lemma wf_held_calls [simp]: "wf_held h (st\<lparr>calls := c\<rparr>) = wf_held h st"
  by (simp add: wf_held_def)

lemma wf_held_log_msg [simp]: "wf_held h (log_msg st p m a b) = wf_held h st"
  by (simp add: wf_held_def)

lemma find_seat_distinct:
  "distinct (map seat_addr l) \<Longrightarrow> find (\<lambda>s. seat_addr s = a) l = Some x \<Longrightarrow>
   s \<in> set l \<Longrightarrow> seat_addr s = a \<Longrightarrow> s = x"
  by (induction l) (auto split: if_splits)

lemma length_filter_remove:
  "distinct (map dev_addr ds) \<Longrightarrow> x \<in> dev_addr ` set ds \<Longrightarrow>
   Suc (length (filter (\<lambda>d. dev_addr d \<noteq> x) ds)) = length ds"
proof (induction ds)
  case Nil
  then show ?case by simp
next
  case (Cons d ds)
  show ?case
  proof (cases "dev_addr d = x")
    case True
    then have "x \<notin> dev_addr ` set ds"
      using Cons.prems(1) by auto
    then have "filter (\<lambda>d. dev_addr d \<noteq> x) ds = ds"
      by (auto simp: filter_id_conv)
    with True show ?thesis by simp
  next
    case False
    with Cons show ?thesis by auto
  qed
qed

lemma seat_list_evdev_device_remove:
  "seat_list (evdev_device_remove st d) =
     filter (\<lambda>s. \<not> (seat_addr s = base_seat d \<and> refcount s = 0))
       (map (\<lambda>s. if seat_addr s = base_seat d
                 then s\<lparr>devices_list := filter (\<lambda>x. dev_addr x \<noteq> dev_addr d) (devices_list s),
                        refcount := refcount s - 1\<rparr>
                 else s) (seat_list st))"
  unfolding evdev_device_remove_def Let_def seat_list_unref
  by (simp add: comp_def if_distrib cong: if_cong)

lemma wf_held_path_disable_device:
  assumes wf: "wf_held h st"
  shows "wf_held h (path_disable_device st d)"
proof (cases "find_seat st (base_seat d)")
  case None
  then show ?thesis using wf by (simp add: path_disable_device_def)
next
  case (Some seat)
  show ?thesis
  proof (cases "dev_addr d \<in> set (map dev_addr (devices_list seat))")
    case False
    then show ?thesis using wf Some by (simp add: path_disable_device_def)
  next
    case True
    have dist: "distinct (map seat_addr (seat_list st))"
      using wf by (simp add: wf_held_def wf_seats_def)
    have "wf_seats (next_addr st) h (seat_list (evdev_device_remove st d))"
      unfolding seat_list_evdev_device_remove
    proof (rule wf_seats_filter_map [where h = h and n = "next_addr st"])
      show "wf_seats (next_addr st) h (seat_list st)"
        using wf by (simp add: wf_held_def)
    next
      fix s
      assume s: "s \<in> set (seat_list st)" and ws: "wf_seat (next_addr st) h s"
        and keep: "\<not> (seat_addr (if seat_addr s = base_seat d
                 then s\<lparr>devices_list := filter (\<lambda>x. dev_addr x \<noteq> dev_addr d) (devices_list s),
                        refcount := refcount s - 1\<rparr>
                 else s) = base_seat d \<and> refcount (if seat_addr s = base_seat d
                 then s\<lparr>devices_list := filter (\<lambda>x. dev_addr x \<noteq> dev_addr d) (devices_list s),
                        refcount := refcount s - 1\<rparr>
                 else s) = 0)"
      show "wf_seat (next_addr st) h (if seat_addr s = base_seat d
                 then s\<lparr>devices_list := filter (\<lambda>x. dev_addr x \<noteq> dev_addr d) (devices_list s),
                        refcount := refcount s - 1\<rparr>
                 else s)"
      proof (cases "seat_addr s = base_seat d")
        case False
        then show ?thesis using ws by simp
      next
        case eq: True
        then have "s = seat"
          using find_seat_distinct [OF dist _ s] Some by (simp add: find_seat_def)
        then have len: "Suc (length (filter (\<lambda>x. dev_addr x \<noteq> dev_addr d) (devices_list s))) =
            length (devices_list s)"
          using True ws by (intro length_filter_remove) (auto simp: wf_seat_def)
        have rc: "refcount s - 1 \<noteq> 0"
          using keep eq by simp
        show ?thesis
          using eq ws len rc
          by (auto simp: wf_seat_def distinct_map_filter list_all_iff)
      qed
    qed (simp_all add: seat_key_def)
    then have "wf_held h (evdev_device_remove st d)"
      using wf by (simp add: wf_held_def)
    then show ?thesis
      using Some True by (simp add: path_disable_device_def)
  qed
qed

lemma next_addr_evdev_device_create:
  "next_addr (snd (evdev_device_create st a dn sn)) =
     (if evdev_probe st (calls st) (chars dn) = Evdev_created then Suc (next_addr st) else next_addr st)"
  by (simp add: evdev_device_create_def Let_def split: evdev_outcome.splits)

lemma seat_list_evdev_device_create:
  "seat_list (snd (evdev_device_create st a dn sn)) =
     (if evdev_probe st (calls st) (chars dn) = Evdev_created
      then map (\<lambda>s. if seat_addr s = a
                     then s\<lparr>refcount := refcount s + 1,
                            devices_list := devices_list s @
                              [\<lparr>dev_addr = next_addr st, evdev_devnode = dn, evdev_sysname = sn,
                                base_seat = a\<rparr>]\<rparr>
                     else s) (seat_list st)
      else seat_list st)"
  by (simp add: evdev_device_create_def Let_def split: evdev_outcome.splits)

lemma fst_evdev_device_create:
  "fst (evdev_device_create st a dn sn) =
     (case evdev_probe st (calls st) (chars dn) of
        Evdev_created \<Rightarrow> (Evdev_created,
           Some \<lparr>dev_addr = next_addr st, evdev_devnode = dn, evdev_sysname = sn, base_seat = a\<rparr>)
      | Evdev_unhandled \<Rightarrow> (Evdev_unhandled, None)
      | Evdev_null \<Rightarrow> (Evdev_null, None))"
  by (simp add: evdev_device_create_def Let_def split: evdev_outcome.splits)

lemma wf_held_evdev_device_create:
  assumes wf: "wf_held h st"
  shows "wf_held h (snd (evdev_device_create st a dn sn))"
proof (cases "evdev_probe st (calls st) (chars dn) = Evdev_created")
  case False
  then have "seat_list (snd (evdev_device_create st a dn sn)) = seat_list st"
    and "next_addr (snd (evdev_device_create st a dn sn)) = next_addr st"
    by (simp_all add: seat_list_evdev_device_create next_addr_evdev_device_create)
  then show ?thesis using wf by (simp add: wf_held_def)
next
  case True
  have "wf_seats (Suc (next_addr st)) h (seat_list (snd (evdev_device_create st a dn sn)))"
    unfolding seat_list_evdev_device_create using True
    apply simp
    apply (rule wf_seats_map [where h = h and n = "next_addr st"])
    using wf apply (simp add: wf_held_def)
      apply simp
     apply (simp add: seat_key_def)
    apply (auto simp: wf_seat_def list_all_iff)
    done
  then show ?thesis
    using wf True by (simp add: wf_held_def next_addr_evdev_device_create)
qed

lemma wf_held_path_seat_create:
  assumes wf: "wf_held None st"
    and fresh: "path_seat_get_named st p l = None"
  shows "wf_held (Some (next_addr st)) (snd (path_seat_create st p l))"
proof -
  have k: "(p, l) \<notin> set (map seat_key (seat_list st))"
    using fresh by (auto simp: path_seat_get_named_def find_None_iff seat_key_def)
  have a: "next_addr st \<notin> set (map seat_addr (seat_list st))"
    using wf by (auto simp: wf_held_def wf_seats_def list_all_iff wf_seat_def)
  have old: "wf_seats (Suc (next_addr st)) (Some (next_addr st)) (seat_list st)"
    apply (rule wf_seats_map [where g = "\<lambda>s. s" and h = None and n = "next_addr st", simplified])
    using wf apply (simp add: wf_held_def)
    apply (auto simp: wf_seat_def list_all_iff)
    done
  show ?thesis
    using old k a wf
    by (simp add: wf_held_def path_seat_create_def Let_def libinput_seat_init_def wf_seats_def
        wf_seat_def seat_key_def)
qed

lemma path_seat_create_Some:
  "fst (path_seat_create st p l) = Some (next_addr st)"
  by (simp add: path_seat_create_def Let_def)

lemma wf_held_path_device_enable:
  assumes wf: "wf_held None st"
  shows "wf_held None (snd (path_device_enable st dev ov))"
proof -
  have named: "wf_held None (snd (
      let (seat, st2) =
                    (case path_seat_get_named st1 default_seat lname of
                       Some s \<Rightarrow> (Some (seat_addr s), libinput_seat_ref st1 (seat_addr s))
                     | None \<Rightarrow> path_seat_create st1 default_seat lname)
              in case seat of
                   None \<Rightarrow>
                     (None, log_msg st2 LOG_INFO Failed_to_create_seat
                              (sysname dev) (chars (devnode dev)))
                 | Some sa \<Rightarrow>
                     (let ((outcome, device), st3) =
                            evdev_device_create st2 sa (devnode dev) (sysname dev);
                          st4 = libinput_seat_unref st3 sa
                      in case outcome of
                           Evdev_unhandled \<Rightarrow>
                             (None, log_msg st4 LOG_INFO Not_using_input_device
                                      (sysname dev) (chars (devnode dev)))
                         | Evdev_null \<Rightarrow>
                             (None, log_msg st4 LOG_INFO Failed_to_create_input_device
                                      (sysname dev) (chars (devnode dev)))
                         | Evdev_created \<Rightarrow> (device, st4))))"
    if w1: "wf_held None st1" for st1 lname
  proof (cases "path_seat_get_named st1 default_seat lname")
    case None
    have "wf_held None (libinput_seat_unref (snd (evdev_device_create
             (snd (path_seat_create st1 default_seat lname)) (next_addr st1)
             (devnode dev) (sysname dev))) (next_addr st1))"
      by (intro wf_held_unref wf_held_evdev_device_create wf_held_path_seat_create w1 None)
    then show ?thesis
      using None path_seat_create_Some [of st1 default_seat lname]
      by (simp add: split_beta Let_def split: evdev_outcome.splits option.splits)
  next
    case (Some s)
    have "wf_held None (libinput_seat_unref (snd (evdev_device_create
             (libinput_seat_ref st1 (seat_addr s)) (seat_addr s)
             (devnode dev) (sysname dev))) (seat_addr s))"
      by (intro wf_held_unref wf_held_evdev_device_create wf_held_ref w1)
    then show ?thesis
      using Some
      by (simp add: split_beta Let_def split: evdev_outcome.splits option.splits)
  qed
  show ?thesis
  proof (cases ov)
    case None
    show ?thesis
    proof (cases "strdup_succeeds st (calls st)")
      case False
      then show ?thesis
        using wf None by (simp add: path_device_enable_def strdup_def Let_def)
    next
      case True
      then show ?thesis
        using None named [of "st\<lparr>calls := Suc (calls st)\<rparr>" default_seat_name] wf
        by (simp add: path_device_enable_def strdup_def Let_def)
    qed
  next
    case (Some n)
    then show ?thesis
      using named [of st n] wf
      by (simp add: path_device_enable_def Let_def)
  qed
qed

lemma wf_held_foldl_path_disable_device:
  "wf_held h st \<Longrightarrow> wf_held h (foldl path_disable_device st ds)"
  by (induction ds arbitrary: st) (simp_all add: wf_held_path_disable_device)

lemma wf_input_path_input_disable_seat:
  "wf_input st \<Longrightarrow> wf_input (path_input_disable_seat st a)"
  unfolding wf_input_def path_input_disable_seat_fold Let_def
  by (intro wf_held_unref wf_held_foldl_path_disable_device wf_held_ref)

lemma wf_input_foldl_path_input_disable_seat:
  "wf_input st \<Longrightarrow> wf_input (foldl path_input_disable_seat st as)"
  by (induction as arbitrary: st) (simp_all add: wf_input_path_input_disable_seat)

lemma wf_input_path_input_disable:
  "wf_input st \<Longrightarrow> wf_input (path_input_disable st)"
  by (simp add: path_input_disable_fold wf_input_foldl_path_input_disable_seat)

lemma wf_input_path_device_enable:
  "wf_input st \<Longrightarrow> wf_input (snd (path_device_enable st dev ov))"
  by (simp add: wf_input_def wf_held_path_device_enable)

lemma wf_input_path_input_enable_loop:
  "wf_input st \<Longrightarrow> wf_input (snd (path_input_enable_loop st devs))"
proof (induction devs arbitrary: st)
  case Nil
  then show ?case by simp
next
  case (Cons dev devs)
  have w: "wf_input (snd (path_device_enable st dev None))"
    using Cons.prems by (rule wf_input_path_device_enable)
  show ?case
  proof (cases "path_device_enable st dev None")
    case (Pair r st1)
    with w have w1: "wf_input st1" by simp
    show ?thesis
      using Pair w1 Cons.IH [of st1]
      by (cases r) (simp_all add: wf_input_path_input_disable)
  qed
qed

lemma wf_input_path_input_enable:
  "wf_input st \<Longrightarrow> wf_input (snd (path_input_enable st))"
  by (simp add: path_input_enable_def wf_input_path_input_enable_loop)

lemma next_addr_path_device_enable_mono:
  "next_addr st \<le> next_addr (snd (path_device_enable st dev ov))"
  by (simp add: path_device_enable_def Let_def strdup_def path_seat_create_def
        libinput_seat_init_def split_beta next_addr_evdev_device_create
      split: option.splits evdev_outcome.splits prod.splits)

lemma wf_paths_ConsD: "wf_paths n (x # l) \<Longrightarrow> wf_paths n l"
  by (simp add: wf_paths_def)

lemma wf_input_path_create_device:
  assumes wf: "wf_input st"
  shows "wf_input (snd (path_create_device st dn sn))"
proof -
  let ?dev = "\<lparr>devnode = \<lparr>ptr = next_addr st, chars = dn\<rparr>,
                 sysname = (case strrchr dn (CHR ''/'') of Some r \<Rightarrow> tl r | None \<Rightarrow> [])\<rparr>"
  let ?st1 = "st\<lparr>next_addr := Suc (next_addr st), path_list := ?dev # path_list st\<rparr>"
  have "wf_input ?st1"
    using wf
    by (auto simp: wf_input_def wf_held_def wf_paths_def list_all_iff
        intro: wf_seats_mono)
  then have w2: "wf_input (snd (path_device_enable ?st1 ?dev sn))"
    by (rule wf_input_path_device_enable)
  then have "wf_input ((snd (path_device_enable ?st1 ?dev sn))
      \<lparr>path_list := remove1 ?dev (path_list (snd (path_device_enable ?st1 ?dev sn)))\<rparr>)"
    by (auto simp add: wf_input_def wf_held_def dest: wf_paths_ConsD)
  with w2 show ?thesis
    by (simp add: path_create_device_def Let_def split_beta split: option.splits)
qed

lemma set_path_list_remove: "set (path_list_remove l p) \<subseteq> set l"
  by (induction l) auto

lemma wf_paths_path_list_remove: "wf_paths n l \<Longrightarrow> wf_paths n (path_list_remove l p)"
  using set_path_list_remove [of _ p]
  by (induction l) (auto simp: wf_paths_def list_all_iff)

lemma wf_input_libinput_path_remove_device:
  assumes wf: "wf_input st"
  shows "wf_input (libinput_path_remove_device st device)"
proof (cases "interface_backend st = Path_backend")
  case False
  then show ?thesis
    using wf by (simp add: libinput_path_remove_device_def wf_input_def)
next
  case True
  have "wf_held None (st\<lparr>path_list := path_list_remove (path_list st) (ptr (evdev_devnode device))\<rparr>)"
    using wf by (simp add: wf_input_def wf_held_def wf_paths_path_list_remove)
  then show ?thesis
    using True unfolding libinput_path_remove_device_def Let_def wf_input_def
    by (simp add: wf_held_unref wf_held_path_disable_device wf_held_ref)
qed

lemma forget_device_sysname_fields [simp]:
  "dev_addr (forget_device_sysname p junk x) = dev_addr x"
  "base_seat (forget_device_sysname p junk x) = base_seat x"
  "evdev_devnode (forget_device_sysname p junk x) = evdev_devnode x"
  by (simp_all add: forget_device_sysname_def)

lemma devnode_forget_record_sysname [simp]:
  "devnode (forget_record_sysname p junk r) = devnode r"
  by (simp add: forget_record_sysname_def)

lemma forget_sysname_fields [simp]:
  "path_list (forget_sysname p junk st) = map (forget_record_sysname p junk) (path_list st)"
  "seat_list (forget_sysname p junk st) =
     map (\<lambda>s. s\<lparr>devices_list := map (forget_device_sysname p junk) (devices_list s)\<rparr>)
       (seat_list st)"
  "interface_backend (forget_sysname p junk st) = interface_backend st"
  "next_addr (forget_sysname p junk st) = next_addr st"
  "calls (forget_sysname p junk st) = calls st"
  "strdup_succeeds (forget_sysname p junk st) = strdup_succeeds st"
  "evdev_probe (forget_sysname p junk st) = evdev_probe st"
  "freed_text (forget_sysname p junk st) = freed_text st"
  "logged (forget_sysname p junk st) = logged st"
  by (simp_all add: forget_sysname_def)

lemma wf_seats_forget:
  assumes "wf_seats n h l"
  shows "wf_seats n h
     (map (\<lambda>s. s\<lparr>devices_list := map (forget_device_sysname p junk) (devices_list s)\<rparr>) l)"
  using assms
  by (rule wf_seats_map) (simp_all add: seat_key_def wf_seat_def list_all_iff comp_def)

lemma wf_paths_forget:
  "wf_paths n l \<Longrightarrow> wf_paths n (map (forget_record_sysname p junk) l)"
  by (simp add: wf_paths_def list_all_iff comp_def)

lemma wf_input_forget_sysname:
  "wf_input st \<Longrightarrow> wf_input (forget_sysname p junk st)"
  by (simp add: wf_input_def wf_held_def wf_seats_forget wf_paths_forget)

lemma wf_input_free_devnode_copy:
  "wf_input st \<Longrightarrow> wf_input (free_devnode_copy st dn created)"
  by (simp add: free_devnode_copy_def wf_input_forget_sysname split: option.splits)

lemma wf_input_path_device_change_seat:
  assumes wf: "wf_input st"
  shows "wf_input (snd (path_device_change_seat st device sn))"
proof (cases "strdup_succeeds st (calls st)")
  case False
  then show ?thesis
    using wf by (simp add: path_device_change_seat_def strdup_def wf_input_def)
next
  case True
  have "wf_input (st\<lparr>calls := Suc (calls st)\<rparr>)"
    using wf by (simp add: wf_input_def)
  then have "wf_input (snd (path_create_device
      (libinput_path_remove_device (st\<lparr>calls := Suc (calls st)\<rparr>) device)
      (chars (evdev_devnode device)) sn))"
    by (intro wf_input_path_create_device wf_input_libinput_path_remove_device)
  then show ?thesis
    using True
    by (simp add: path_device_change_seat_def strdup_def Let_def split_beta
        wf_input_free_devnode_copy)
qed

lemma wf_input_api_step: "wf_input st \<Longrightarrow> wf_input (api_step st c)"
proof (cases c)
  case (Add_device path)
  assume "wf_input st"
  then show ?thesis
    using Add_device wf_input_path_create_device [of st path None]
    by (simp add: libinput_path_add_device_def wf_input_def)
qed (simp_all add: wf_input_libinput_path_remove_device wf_input_path_device_change_seat
      wf_input_path_input_enable wf_input_path_input_disable)

lemma wf_input_foldl_api_step: "wf_input st \<Longrightarrow> wf_input (foldl api_step st cs)"
  by (induction cs arbitrary: st) (simp_all add: wf_input_api_step)

lemma wf_input_create_context:
  "libinput_path_create_context i k sd ep ft = Some st \<Longrightarrow> wf_input st"
  by (auto simp: libinput_path_create_context_def wf_input_def wf_held_def wf_seats_def
      wf_paths_def split: if_splits)

section \<open>The sweep over the seats\<close>

text \<open>With distinct seat addresses the list of seats around one seat splits into what
  is before and what is after it, and each step of the sweep rewrites that one seat.\<close>

lemma upd_shape:
  assumes "distinct (map seat_addr (pre @ s # post))"
  shows "map (\<lambda>x. if seat_addr x = seat_addr s then f x else x) (pre @ s # post) = pre @ f s # post"
proof -
  have "map (\<lambda>x. if seat_addr x = seat_addr s then f x else x) pre = pre"
    using assms by (intro map_idI) (auto simp: image_iff)
  moreover have "map (\<lambda>x. if seat_addr x = seat_addr s then f x else x) post = post"
    using assms by (intro map_idI) (auto simp: image_iff)
  ultimately show ?thesis by simp
qed

lemma filter_shape:
  assumes "distinct (map seat_addr (pre @ s # post))"
  shows "filter (\<lambda>x. \<not> (seat_addr x = seat_addr s \<and> refcount x = 0)) (pre @ s # post) =
         pre @ (if refcount s = 0 then [] else [s]) @ post"
proof -
  have "filter (\<lambda>x. \<not> (seat_addr x = seat_addr s \<and> refcount x = 0)) pre = pre"
    using assms by (auto simp: filter_id_conv image_iff)
  moreover have "filter (\<lambda>x. \<not> (seat_addr x = seat_addr s \<and> refcount x = 0)) post = post"
    using assms by (auto simp: filter_id_conv image_iff)
  ultimately show ?thesis by simp
qed

lemma find_shape:
  assumes "distinct (map seat_addr (pre @ s # post))"
  shows "find (\<lambda>x. seat_addr x = seat_addr s) (pre @ s # post) = Some s"
  using assms by (induction pre) auto

lemma seat_list_ref_shape:
  assumes "seat_list st = pre @ s # post" "distinct (map seat_addr (seat_list st))"
  shows "seat_list (libinput_seat_ref st (seat_addr s)) = pre @ s\<lparr>refcount := refcount s + 1\<rparr> # post"
  using assms by (simp add: seat_list_ref upd_shape del: map_append)

lemma seat_list_unref_shape:
  assumes "seat_list st = pre @ s # post" "distinct (map seat_addr (seat_list st))"
  shows "seat_list (libinput_seat_unref st (seat_addr s)) =
     pre @ (if refcount s \<le> 1 then [] else [s\<lparr>refcount := refcount s - 1\<rparr>]) @ post"
proof -
  let ?s = "s\<lparr>refcount := refcount s - 1\<rparr>"
  have m: "map (\<lambda>x. if seat_addr x = seat_addr s then x\<lparr>refcount := refcount x - 1\<rparr> else x)
      (seat_list st) = pre @ ?s # post"
    using assms upd_shape [of pre s post "\<lambda>x. x\<lparr>refcount := refcount x - 1\<rparr>"] by simp
  have d: "distinct (map seat_addr (pre @ ?s # post))"
    using assms by simp
  have "seat_list (libinput_seat_unref st (seat_addr s)) =
      pre @ (if refcount ?s = 0 then [] else [?s]) @ post"
    unfolding seat_list_unref m using filter_shape [OF d] by simp
  then show ?thesis by (simp split: if_splits)
qed

lemma seat_list_path_disable_device_shape:
  assumes shape: "seat_list st = pre @ s # post"
    and dist: "distinct (map seat_addr (seat_list st))"
    and devs: "devices_list s = d # ds" "distinct (map dev_addr (d # ds))"
    and bk: "base_seat d = seat_addr s"
    and rc: "2 \<le> refcount s"
  shows "seat_list (path_disable_device st d) =
     pre @ s\<lparr>devices_list := ds, refcount := refcount s - 1\<rparr> # post"
proof -
  have f: "find_seat st (base_seat d) = Some s"
    using shape dist bk find_shape [of pre s post] by (simp add: find_seat_def)
  have flt: "filter (\<lambda>x. dev_addr x \<noteq> dev_addr d) (d # ds) = ds"
    using devs(2) by (auto simp: filter_id_conv image_iff)
  let ?s = "s\<lparr>devices_list := ds, refcount := refcount s - 1\<rparr>"
  have m: "map (\<lambda>x. if seat_addr x = seat_addr s
                 then x\<lparr>devices_list := filter (\<lambda>y. dev_addr y \<noteq> dev_addr d) (devices_list x),
                        refcount := refcount x - 1\<rparr>
                 else x) (seat_list st) = pre @ ?s # post"
    using shape dist devs(1) flt
      upd_shape [of pre s post "\<lambda>x. x\<lparr>devices_list := filter (\<lambda>y. dev_addr y \<noteq> dev_addr d) (devices_list x),
                        refcount := refcount x - 1\<rparr>"]
    by simp
  have d: "distinct (map seat_addr (pre @ ?s # post))"
    using shape dist by simp
  have "seat_list (evdev_device_remove st d) = pre @ (if refcount ?s = 0 then [] else [?s]) @ post"
    unfolding seat_list_evdev_device_remove bk m using filter_shape [OF d] by simp
  then have "seat_list (evdev_device_remove st d) = pre @ ?s # post"
    using rc by simp
  then show ?thesis
    using f devs(1) by (simp add: path_disable_device_def)
qed

lemma seat_list_sweep_shape:
  assumes "seat_list st = pre @ s # post"
    and "distinct (map seat_addr (seat_list st))"
    and "devices_list s = ds" "distinct (map dev_addr ds)"
    and "\<forall>d\<in>set ds. base_seat d = seat_addr s"
    and "length ds < refcount s"
  shows "seat_list (foldl path_disable_device st ds) =
     pre @ s\<lparr>refcount := refcount s - length ds, devices_list := []\<rparr> # post"
  using assms
proof (induction ds arbitrary: st s)
  case Nil
  then show ?case by simp
next
  case (Cons d ds)
  let ?s = "s\<lparr>devices_list := ds, refcount := refcount s - 1\<rparr>"
  have step: "seat_list (path_disable_device st d) = pre @ ?s # post"
    using Cons.prems by (intro seat_list_path_disable_device_shape) auto
  have "seat_list (foldl path_disable_device (path_disable_device st d) ds) =
      pre @ ?s\<lparr>refcount := refcount ?s - length ds, devices_list := []\<rparr> # post"
  proof (rule Cons.IH [OF step])
    show "distinct (map seat_addr (seat_list (path_disable_device st d)))"
      using step Cons.prems(1,2) by simp
  qed (use Cons.prems in auto)
  then show ?case by simp
qed

lemma seat_list_path_input_disable_seat_shape:
  assumes shape: "seat_list st = pre @ s # post"
    and dist: "distinct (map seat_addr (seat_list st))"
    and ws: "wf_seat n None s"
  shows "seat_list (path_input_disable_seat st (seat_addr s)) =
     pre @ (if length (devices_list s) < refcount s
            then [s\<lparr>refcount := refcount s - length (devices_list s), devices_list := []\<rparr>]
            else []) @ post"
proof -
  let ?a = "seat_addr s"
  let ?s1 = "s\<lparr>refcount := refcount s + 1\<rparr>"
  let ?st1 = "libinput_seat_ref st ?a"
  have s1: "seat_list ?st1 = pre @ ?s1 # post"
    using shape dist by (rule seat_list_ref_shape)
  have d1: "distinct (map seat_addr (seat_list ?st1))"
    using s1 shape dist by simp
  have sd: "seat_devices ?st1 ?a = devices_list s"
    using s1 d1 find_shape [of pre ?s1 post] by (simp add: seat_devices_def find_seat_def)
  let ?s2 = "?s1\<lparr>refcount := refcount ?s1 - length (devices_list s), devices_list := []\<rparr>"
  let ?st2 = "foldl path_disable_device ?st1 (devices_list s)"
  have s2: "seat_list ?st2 = pre @ ?s2 # post"
    using s1 d1 ws by (intro seat_list_sweep_shape) (auto simp: wf_seat_def list_all_iff)
  have d2: "distinct (map seat_addr (seat_list ?st2))"
    using s2 shape dist by simp
  have "seat_list (libinput_seat_unref ?st2 (seat_addr ?s2)) =
      pre @ (if refcount ?s2 \<le> 1 then [] else [?s2\<lparr>refcount := refcount ?s2 - 1\<rparr>]) @ post"
    using s2 d2 by (rule seat_list_unref_shape)
  then show ?thesis
    using ws by (auto simp add: path_input_disable_seat_fold Let_def sd wf_seat_def)
qed

lemma seat_list_foldl_path_input_disable_seat:
  assumes "seat_list st = acc @ todo"
    and "distinct (map seat_addr (seat_list st))"
    and "list_all (wf_seat n None) todo"
  shows "seat_list (foldl path_input_disable_seat st (map seat_addr todo)) = acc @ swept todo"
  using assms
proof (induction todo arbitrary: st acc)
  case Nil
  then show ?case by (simp add: swept_def)
next
  case (Cons s todo)
  let ?new = "if length (devices_list s) < refcount s
            then [s\<lparr>refcount := refcount s - length (devices_list s), devices_list := []\<rparr>]
            else []"
  let ?st = "path_input_disable_seat st (seat_addr s)"
  have step: "seat_list ?st = (acc @ ?new) @ todo"
    using seat_list_path_input_disable_seat_shape [of st acc s todo n] Cons.prems by simp
  have "seat_list (foldl path_input_disable_seat ?st (map seat_addr todo)) = (acc @ ?new) @ swept todo"
  proof (rule Cons.IH [OF step])
    show "distinct (map seat_addr (seat_list ?st))"
      using step Cons.prems(1,2) by auto
  qed (use Cons.prems in simp)
  then show ?case
    by (simp add: swept_def)
qed

lemma seat_list_path_input_disable:
  assumes "wf_input st"
  shows "seat_list (path_input_disable st) = swept (seat_list st)"
  using seat_list_foldl_path_input_disable_seat [of st "[]" "seat_list st" "next_addr st"] assms
  by (simp add: path_input_disable_fold wf_input_def wf_held_def wf_seats_def)

section \<open>Enabling a record\<close>

text \<open>What \<open>path_device_enable\<close> returns, as equations: one for a resolved name
  pair that a registered seat has, one for a pair that no seat has.\<close>

lemma seat_list_seats_ref : "seat_list (libinput_seat_ref st a) = seats_ref a (seat_list st)"
  by (simp add: seat_list_ref seats_ref_def)

lemma seat_list_seats_unref : "seat_list (libinput_seat_unref st a) = seats_unref a (seat_list st)"
  unfolding seat_list_unref seats_unref_def ..

lemma seat_list_seats_attach :
  "seat_list (snd (evdev_device_create st a dn sn)) =
     (if evdev_probe st (calls st) (chars dn) = Evdev_created
      then seats_attach a \<lparr>dev_addr = next_addr st, evdev_devnode = dn, evdev_sysname = sn,
                                base_seat = a\<rparr> (seat_list st)
      else seat_list st)"
  by (simp add: seat_list_evdev_device_create seats_attach_def)

lemma seats_unref_ref:
  assumes "\<forall>s\<in>set l. 1 \<le> refcount s"
  shows "seats_unref a (seats_ref a l) = l"
proof -
  have "map (\<lambda>x. if seat_addr x = a then x\<lparr>refcount := refcount x - 1\<rparr> else x)
          (map (\<lambda>x. if seat_addr x = a then x\<lparr>refcount := refcount x + 1\<rparr> else x) l) =
        map (\<lambda>x. x) l"
    unfolding map_map by (rule map_cong [OF refl]) simp
  then show ?thesis
    using assms by (auto simp: seats_unref_def seats_ref_def filter_id_conv)
qed

lemma seats_unref_attach_ref:
  "seats_unref a (seats_attach a d (seats_ref a l)) = seats_attach a d l"
proof -
  have "seats_unref a (seats_attach a d (seats_ref a l)) =
      filter (\<lambda>s. \<not> (seat_addr s = a \<and> refcount s = 0)) (seats_attach a d l)"
    unfolding seats_unref_def seats_ref_def seats_attach_def map_map
    by (rule arg_cong [where f = "filter _"], rule map_cong [OF refl]) simp
  also have "\<dots> = seats_attach a d l"
    by (induction l) (simp_all add: seats_attach_def)
  finally show ?thesis .
qed

lemma seats_attach_fresh:
  assumes "\<forall>s\<in>set l. seat_addr s \<noteq> a"
  shows "seats_attach a d l = l" "seats_unref a l = l"
  using assms by (auto simp: seats_attach_def seats_unref_def filter_id_conv intro: map_idI)

lemma path_device_enable_None:
  "path_device_enable st dev None =
     (if strdup_succeeds st (calls st)
      then path_device_enable (st\<lparr>calls := Suc (calls st)\<rparr>) dev (Some default_seat_name)
      else (None, log_msg (st\<lparr>calls := Suc (calls st)\<rparr>) LOG_ERROR Failed_to_create_seat_name
                      (sysname dev) (chars (devnode dev))))"
  by (simp add: path_device_enable_def strdup_def Let_def)

lemma path_device_enable_existing:
  assumes wf: "wf_input st"
    and found: "path_seat_get_named st default_seat lname = Some s"
  shows "path_device_enable st dev (Some lname) =
     (case evdev_probe st (calls st) (chars (devnode dev)) of
        Evdev_created \<Rightarrow>
          (Some \<lparr>dev_addr = next_addr st, evdev_devnode = devnode dev,
                 evdev_sysname = sysname dev, base_seat = seat_addr s\<rparr>,
           st\<lparr>calls := Suc (calls st), next_addr := Suc (next_addr st),
              seat_list := seats_attach (seat_addr s)
                 \<lparr>dev_addr = next_addr st, evdev_devnode = devnode dev,
                   evdev_sysname = sysname dev, base_seat = seat_addr s\<rparr> (seat_list st)\<rparr>)
      | Evdev_unhandled \<Rightarrow>
          (None, log_msg (st\<lparr>calls := Suc (calls st)\<rparr>) LOG_INFO Not_using_input_device
                   (sysname dev) (chars (devnode dev)))
      | Evdev_null \<Rightarrow>
          (None, log_msg (st\<lparr>calls := Suc (calls st)\<rparr>) LOG_INFO Failed_to_create_input_device
                   (sysname dev) (chars (devnode dev))))"
    (is "?l = ?r")
proof -
  have rc: "\<forall>x\<in>set (seat_list st). 1 \<le> refcount x"
    using wf by (auto simp: wf_input_def wf_held_def wf_seats_def list_all_iff wf_seat_def)
  note unfold = path_device_enable_def Let_def split_beta fst_evdev_device_create
  note lists = seat_list_seats_ref seat_list_seats_unref seat_list_seats_attach seats_unref_ref [OF rc]
    seats_unref_attach_ref next_addr_evdev_device_create
  show ?thesis
  proof (rule prod_eqI)
    show "fst ?l = fst ?r"
      using found by (simp add: unfold split: evdev_outcome.splits)
    show "snd ?l = snd ?r"
      using found
      by (intro path_input.equality; simp add: unfold lists split: evdev_outcome.splits)
  qed
qed

lemma path_device_enable_new:
  assumes wf: "wf_input st"
    and fresh: "path_seat_get_named st default_seat lname = None"
  shows "path_device_enable st dev (Some lname) =
     (case evdev_probe st (calls st) (chars (devnode dev)) of
        Evdev_created \<Rightarrow>
          (Some \<lparr>dev_addr = Suc (next_addr st), evdev_devnode = devnode dev,
                 evdev_sysname = sysname dev, base_seat = next_addr st\<rparr>,
           st\<lparr>calls := Suc (calls st), next_addr := Suc (Suc (next_addr st)),
              seat_list := \<lparr>seat_addr = next_addr st, physical_name = default_seat,
                             logical_name = lname, refcount = 1,
                             devices_list = [\<lparr>dev_addr = Suc (next_addr st),
                               evdev_devnode = devnode dev, evdev_sysname = sysname dev,
                               base_seat = next_addr st\<rparr>]\<rparr> # seat_list st\<rparr>)
      | Evdev_unhandled \<Rightarrow>
          (None, log_msg (st\<lparr>calls := Suc (calls st), next_addr := Suc (next_addr st)\<rparr>)
                   LOG_INFO Not_using_input_device (sysname dev) (chars (devnode dev)))
      | Evdev_null \<Rightarrow>
          (None, log_msg (st\<lparr>calls := Suc (calls st), next_addr := Suc (next_addr st)\<rparr>)
                   LOG_INFO Failed_to_create_input_device (sysname dev) (chars (devnode dev))))"
    (is "?l = ?r")
proof -
  have other: "\<forall>x\<in>set (seat_list st). seat_addr x \<noteq> next_addr st"
    using wf by (auto simp: wf_input_def wf_held_def wf_seats_def list_all_iff wf_seat_def)
  note unfold = path_device_enable_def Let_def split_beta fst_evdev_device_create
    path_seat_create_def libinput_seat_init_def
  note lists = seat_list_seats_unref seat_list_seats_attach next_addr_evdev_device_create
  have l1: "seats_unref (next_addr st) (\<lparr>seat_addr = next_addr st, physical_name = p,
       logical_name = q, refcount = Suc 0, devices_list = []\<rparr> # seat_list st) = seat_list st" for p q
    using seats_attach_fresh(2) [OF other] by (simp add: seats_unref_def)
  have l2: "seats_unref (next_addr st) (seats_attach (next_addr st) d
       (\<lparr>seat_addr = next_addr st, physical_name = p,
       logical_name = q, refcount = Suc 0, devices_list = []\<rparr> # seat_list st)) =
       \<lparr>seat_addr = next_addr st, physical_name = p,
       logical_name = q, refcount = Suc 0, devices_list = [d]\<rparr> # seat_list st" for p q d
    using seats_attach_fresh [OF other] by (simp add: seats_unref_def seats_attach_def)
  show ?thesis
  proof (rule prod_eqI)
    show "fst ?l = fst ?r"
      using fresh by (simp add: unfold split: evdev_outcome.splits)
    show "snd ?l = snd ?r"
      using fresh
      by (intro path_input.equality; simp add: unfold lists l1 l2 split: evdev_outcome.splits)
  qed
qed

lemma add_event3: "libinput_path_add_device ctx_empty ''/dev/input/event3'' = (Some dev_event3, ctx_event3)"
  by (simp add: libinput_path_add_device_def ctx_empty_def ctx_event3_def dev_event3_def rec_event3_def
     path_create_device_def path_device_enable_def Let_def strdup_def path_seat_get_named_def
     path_seat_create_def libinput_seat_init_def evdev_device_create_def update_seat_def
     libinput_seat_unref_def default_seat_def default_seat_name_def log_msg_def)

text \<open>
  C10. Enabling a path record, with or without a logical-name override and whatever the
  adapter answers, leaves the path registry as it was: the same records in the same
  order, with the same devnode and sysname. Only the seats and their device lists (and
  the log and the counters) can differ.
\<close>

theorem path_device_enable_path_list:
  "path_list (snd (path_device_enable st dev ov)) = path_list st"
  by simp

theorem path_device_enable_path_list_witness:
  "path_list (snd (path_device_enable ctx_event3 rec_event3 (Some ''alt''))) = [rec_event3]"
  using path_device_enable_path_list [of ctx_event3 rec_event3 "Some ''alt''"]
  by (simp add: ctx_event3_def)

section \<open>Failed enables and the rollback of a new record\<close>

lemma path_seat_get_named_calls [simp]:
  "path_seat_get_named (st\<lparr>calls := c\<rparr>) p l = path_seat_get_named st p l"
  by (simp add: path_seat_get_named_def)

lemma wf_input_calls [simp]: "wf_input (st\<lparr>calls := c\<rparr>) = wf_input st"
  by (simp add: wf_input_def)

lemma path_device_enable_fails:
  assumes wf: "wf_input st"
    and probe: "evdev_probe st (calls st) (chars (devnode dev)) \<noteq> Evdev_created"
  shows "fst (path_device_enable st dev (Some lname)) = None"
    and "seat_list (snd (path_device_enable st dev (Some lname))) = seat_list st"
    and "logged (snd (path_device_enable st dev (Some lname))) = logged st @
          [(LOG_INFO,
            (if evdev_probe st (calls st) (chars (devnode dev)) = Evdev_unhandled
             then Not_using_input_device else Failed_to_create_input_device),
            sysname dev, chars (devnode dev))]"
proof -
  show "fst (path_device_enable st dev (Some lname)) = None"
    using probe path_device_enable_existing [OF wf, of lname _ dev]
      path_device_enable_new [OF wf, of lname dev]
    by (cases "path_seat_get_named st default_seat lname";
        cases "evdev_probe st (calls st) (chars (devnode dev))") simp_all
  show "seat_list (snd (path_device_enable st dev (Some lname))) = seat_list st"
    using probe path_device_enable_existing [OF wf, of lname _ dev]
      path_device_enable_new [OF wf, of lname dev]
    by (cases "path_seat_get_named st default_seat lname";
        cases "evdev_probe st (calls st) (chars (devnode dev))") simp_all
  show "logged (snd (path_device_enable st dev (Some lname))) = logged st @
          [(LOG_INFO,
            (if evdev_probe st (calls st) (chars (devnode dev)) = Evdev_unhandled
             then Not_using_input_device else Failed_to_create_input_device),
            sysname dev, chars (devnode dev))]"
    using probe path_device_enable_existing [OF wf, of lname _ dev]
      path_device_enable_new [OF wf, of lname dev]
    by (cases "path_seat_get_named st default_seat lname";
        cases "evdev_probe st (calls st) (chars (devnode dev))") simp_all
qed

lemma wf_input_ctx_event3: "wf_input ctx_event3"
  by (simp add: wf_input_def wf_held_def wf_seats_def wf_seat_def wf_paths_def ctx_event3_def
      dev_event3_def rec_event3_def)

text \<open>
  C7. A device the adapter does not handle is not an error. When the logical seat name
  was resolved (so the adapter is called) and the adapter answers with the "unhandled"
  sentinel or with \<^verbatim>\<open>NULL\<close>, \<open>path_device_enable\<close> returns no device and writes one
  entry to the log, of priority info in both cases. The list of seats is then exactly
  what it was before the call: no device was attached anywhere, the reference taken on
  an existing seat was given back, and a seat created for the attempt is gone again.
\<close>

theorem path_device_enable_no_device:
  assumes wf: "wf_input st"
    and named: "ov = None \<longrightarrow> strdup_succeeds st (calls st)"
    and probe: "evdev_probe st (case ov of None \<Rightarrow> Suc (calls st) | Some n \<Rightarrow> calls st)
                  (chars (devnode dev)) = outcome"
    and none: "outcome = Evdev_unhandled \<or> outcome = Evdev_null"
  shows "fst (path_device_enable st dev ov) = None \<and>
         seat_list (snd (path_device_enable st dev ov)) = seat_list st \<and>
         path_list (snd (path_device_enable st dev ov)) = path_list st \<and>
         logged (snd (path_device_enable st dev ov)) = logged st @
           [(LOG_INFO,
             (if outcome = Evdev_unhandled then Not_using_input_device
              else Failed_to_create_input_device),
             sysname dev, chars (devnode dev))]"
proof (cases ov)
  case None
  let ?st = "st\<lparr>calls := Suc (calls st)\<rparr>"
  have w: "wf_input ?st" using wf by simp
  have p: "evdev_probe ?st (calls ?st) (chars (devnode dev)) \<noteq> Evdev_created"
    using probe none None by auto
  show ?thesis
    using None named probe path_device_enable_fails [OF w p, of default_seat_name]
    by (simp add: path_device_enable_None)
next
  case (Some n)
  have p: "evdev_probe st (calls st) (chars (devnode dev)) \<noteq> Evdev_created"
    using probe none Some by auto
  show ?thesis
    using Some probe path_device_enable_fails [OF wf p, of n]
    by simp
qed

theorem path_device_enable_no_device_witness:
  "wf_input ctx_unhandled \<and>
   strdup_succeeds ctx_unhandled (calls ctx_unhandled) \<and>
   evdev_probe ctx_unhandled 3 ''/dev/input/event3'' = Evdev_unhandled \<and>
   fst (path_device_enable ctx_unhandled rec_event3 None) = None \<and>
   seat_list (snd (path_device_enable ctx_unhandled rec_event3 None)) = seat_list ctx_event3 \<and>
   logged (snd (path_device_enable ctx_unhandled rec_event3 None)) =
     [(LOG_INFO, Not_using_input_device, ''event3'', ''/dev/input/event3'')]"
proof -
  have w: "wf_input ctx_unhandled"
    using wf_input_ctx_event3 by (simp add: ctx_unhandled_def wf_input_def wf_held_def)
  have n: "(None :: string option) = None \<longrightarrow> strdup_succeeds ctx_unhandled (calls ctx_unhandled)"
    by (simp add: ctx_unhandled_def ctx_event3_def)
  have p: "evdev_probe ctx_unhandled (case (None :: string option) of None \<Rightarrow> Suc (calls ctx_unhandled) | Some n \<Rightarrow> calls ctx_unhandled)
                  (chars (devnode rec_event3)) = Evdev_unhandled"
    by (simp add: ctx_unhandled_def ctx_event3_def)
  show ?thesis
    using path_device_enable_no_device [OF w n p] w
    by (simp add: ctx_unhandled_def ctx_event3_def rec_event3_def)
qed

lemma strrchr_None: "strrchr s c = None \<longleftrightarrow> c \<notin> set s"
  by (induction s) (auto split: option.splits)

lemma strrchr_Some:
  "strrchr s c = Some r \<Longrightarrow> \<exists>pre t. s = pre @ c # t \<and> r = c # t \<and> c \<notin> set t"
proof (induction s arbitrary: r)
  case Nil
  then show ?case by simp
next
  case (Cons x xs)
  show ?case
  proof (cases "strrchr xs c")
    case None
    with Cons.prems have "x = c" "r = x # xs"
      by (auto split: if_splits)
    moreover have "c \<notin> set xs"
      using None by (simp add: strrchr_None)
    ultimately show ?thesis by (intro exI [of _ "[]"] exI [of _ xs]) simp
  next
    case (Some r')
    with Cons.prems have "r = r'" by simp
    with Cons.IH [OF Some] obtain pre t where "xs = pre @ c # t" "r = c # t" "c \<notin> set t"
      by auto
    then show ?thesis by (intro exI [of _ "x # pre"] exI [of _ t]) simp
  qed
qed

lemma sysname_after_last_separator:
  "(if c \<in> set dn
    then \<exists>pre. dn = pre @ c # (case strrchr dn c of Some r \<Rightarrow> tl r | None \<Rightarrow> []) \<and>
               c \<notin> set (case strrchr dn c of Some r \<Rightarrow> tl r | None \<Rightarrow> [])
    else (case strrchr dn c of Some r \<Rightarrow> tl r | None \<Rightarrow> []) = [])"
proof (cases "strrchr dn c")
  case None
  then have "c \<notin> set dn" by (simp add: strrchr_None)
  with None show ?thesis by simp
next
  case (Some r)
  from strrchr_Some [OF Some] obtain pre t where "dn = pre @ c # t" "r = c # t" "c \<notin> set t"
    by auto
  with Some show ?thesis by auto
qed

lemma path_device_enable_device:
  "fst (path_device_enable st dev ov) = Some d \<Longrightarrow>
   evdev_devnode d = devnode dev \<and> evdev_sysname d = sysname dev"
  by (auto simp add: path_device_enable_def Let_def strdup_def split_beta fst_evdev_device_create
        path_seat_create_def
      split: option.splits evdev_outcome.splits if_splits)

lemma path_create_device_unfold:
  "path_create_device st dn sn =
     (let dev = \<lparr>devnode = \<lparr>ptr = next_addr st, chars = dn\<rparr>,
                 sysname = (case strrchr dn (CHR ''/'') of Some r \<Rightarrow> tl r | None \<Rightarrow> [])\<rparr>;
          r = path_device_enable
                (st\<lparr>next_addr := Suc (next_addr st), path_list := dev # path_list st\<rparr>) dev sn
      in (fst r, if fst r = None then (snd r)\<lparr>path_list := path_list st\<rparr> else snd r))"
proof -
  let ?dev = "\<lparr>devnode = \<lparr>ptr = next_addr st, chars = dn\<rparr>,
                 sysname = (case strrchr dn (CHR ''/'') of Some r \<Rightarrow> tl r | None \<Rightarrow> [])\<rparr>"
  let ?r = "path_device_enable
                (st\<lparr>next_addr := Suc (next_addr st), path_list := ?dev # path_list st\<rparr>) ?dev sn"
  show ?thesis
    by (cases "fst ?r") (simp_all add: path_create_device_def Let_def split_beta)
qed

lemmas run_defs = libinput_path_add_device_def path_create_device_def path_device_enable_def Let_def
  strdup_def path_seat_get_named_def path_seat_create_def libinput_seat_init_def
  evdev_device_create_def update_seat_def libinput_seat_unref_def libinput_seat_ref_def
  default_seat_def default_seat_name_def log_msg_def

text \<open>
  C6. \<open>path_create_device\<close> links the new record at the head of the path list and then
  enables it; when the enable yields no device the record is unlinked again, so the
  path list after a failed call is the path list before it. The same holds for the
  exported \<open>libinput_path_add_device\<close>, which fails without touching the list when the
  context belongs to another backend.
\<close>

theorem path_create_device_rollback:
  "(let dev = \<lparr>devnode = \<lparr>ptr = next_addr st, chars = dn\<rparr>,
               sysname = (case strrchr dn (CHR ''/'') of Some r \<Rightarrow> tl r | None \<Rightarrow> [])\<rparr>;
        r = path_device_enable
              (st\<lparr>next_addr := Suc (next_addr st), path_list := dev # path_list st\<rparr>) dev sn
    in path_create_device st dn sn =
         (fst r, if fst r = None then (snd r)\<lparr>path_list := path_list st\<rparr> else snd r)) \<and>
   (fst (path_create_device st dn sn) = None \<longrightarrow>
      path_list (snd (path_create_device st dn sn)) = path_list st) \<and>
   (fst (libinput_path_add_device st dn) = None \<longrightarrow>
      path_list (snd (libinput_path_add_device st dn)) = path_list st)"
proof (intro conjI impI)
  show "let dev = \<lparr>devnode = \<lparr>ptr = next_addr st, chars = dn\<rparr>,
               sysname = (case strrchr dn (CHR ''/'') of Some r \<Rightarrow> tl r | None \<Rightarrow> [])\<rparr>;
        r = path_device_enable
              (st\<lparr>next_addr := Suc (next_addr st), path_list := dev # path_list st\<rparr>) dev sn
    in path_create_device st dn sn =
         (fst r, if fst r = None then (snd r)\<lparr>path_list := path_list st\<rparr> else snd r)"
    using path_create_device_unfold [of st dn sn] by (simp add: Let_def)
next
  assume "fst (path_create_device st dn sn) = None"
  then show "path_list (snd (path_create_device st dn sn)) = path_list st"
    by (simp add: path_create_device_unfold Let_def split: if_splits)
next
  assume "fst (libinput_path_add_device st dn) = None"
  then show "path_list (snd (libinput_path_add_device st dn)) = path_list st"
    by (simp add: libinput_path_add_device_def path_create_device_unfold Let_def split: if_splits)
qed

theorem path_create_device_rollback_witness:
  "fst (libinput_path_add_device ctx_rejecting ''/dev/input/event3'') = None \<and>
   path_list (snd (libinput_path_add_device ctx_rejecting ''/dev/input/event3'')) = []"
proof -
  have "fst (libinput_path_add_device ctx_rejecting ''/dev/input/event3'') = None"
    by (simp add: ctx_rejecting_def ctx_empty_def run_defs)
  then show ?thesis
    using path_create_device_rollback [of ctx_rejecting "''/dev/input/event3''" None]
    by (simp add: ctx_rejecting_def ctx_empty_def)
qed

text \<open>
  C8. The record that \<open>path_create_device\<close> registers has the given path as its
  devnode and, as its sysname, the text after the last \<^verbatim>\<open>/\<close> of the path, or the empty
  string when the path has no \<^verbatim>\<open>/\<close>. The created device carries the same two strings.
  For \<^verbatim>\<open>/dev/input/event3\<close> the sysname is \<^verbatim>\<open>event3\<close>.
\<close>

theorem path_create_device_sysname:
  assumes "path_create_device st dn sn = (Some d, st') \<or>
           libinput_path_add_device st dn = (Some d, st')"
  shows "\<exists>r. path_list st' = r # path_list st \<and> chars (devnode r) = dn \<and>
             evdev_devnode d = devnode r \<and> evdev_sysname d = sysname r \<and>
             (if CHR ''/'' \<in> set dn
              then \<exists>pre. dn = pre @ CHR ''/'' # sysname r \<and> CHR ''/'' \<notin> set (sysname r)
              else sysname r = [])"
proof -
  let ?dev = "\<lparr>devnode = \<lparr>ptr = next_addr st, chars = dn\<rparr>,
               sysname = (case strrchr dn (CHR ''/'') of Some r \<Rightarrow> tl r | None \<Rightarrow> [])\<rparr>"
  let ?st1 = "st\<lparr>next_addr := Suc (next_addr st), path_list := ?dev # path_list st\<rparr>"
  have "\<exists>sn'. path_create_device st dn sn' = (Some d, st')"
    using assms by (auto simp: libinput_path_add_device_def split: if_splits)
  then obtain sn' where c: "path_create_device st dn sn' = (Some d, st')" ..
  then have f: "fst (path_device_enable ?st1 ?dev sn') = Some d"
    and s: "st' = snd (path_device_enable ?st1 ?dev sn')"
    by (simp_all add: path_create_device_unfold Let_def split: if_splits)
  define short where "short = (case strrchr dn (CHR ''/'') of Some r \<Rightarrow> tl r | None \<Rightarrow> [])"
  have sep: "if CHR ''/'' \<in> set dn
      then \<exists>pre. dn = pre @ CHR ''/'' # short \<and> CHR ''/'' \<notin> set short
      else short = []"
    unfolding short_def by (rule sysname_after_last_separator)
  have pl: "path_list st' = \<lparr>devnode = \<lparr>ptr = next_addr st, chars = dn\<rparr>, sysname = short\<rparr> #
      path_list st"
    using s by (simp add: short_def)
  have "evdev_devnode d = devnode ?dev \<and> evdev_sysname d = sysname ?dev"
    using f by (rule path_device_enable_device)
  then have dv: "evdev_devnode d = \<lparr>ptr = next_addr st, chars = dn\<rparr>" "evdev_sysname d = short"
    by (simp_all add: short_def)
  show ?thesis
    using pl dv sep
    by (intro exI [of _ "\<lparr>devnode = \<lparr>ptr = next_addr st, chars = dn\<rparr>, sysname = short\<rparr>"])
      (auto split: if_splits)
qed

theorem path_create_device_sysname_witness:
  "libinput_path_add_device ctx_empty ''/dev/input/event3'' = (Some dev_event3, ctx_event3) \<and>
   (\<exists>r. path_list ctx_event3 = [r] \<and> chars (devnode r) = ''/dev/input/event3'' \<and>
        sysname r = ''event3'')"
proof -
  have a: "libinput_path_add_device ctx_empty ''/dev/input/event3'' = (Some dev_event3, ctx_event3)"
    by (rule add_event3)
  show ?thesis
    using path_create_device_sysname [OF disjI2, OF a] a
    by (auto simp: ctx_event3_def ctx_empty_def rec_event3_def)
qed

section \<open>Suspend\<close>

text \<open>The run of the sweep, call by call. While the devices of a seat are disabled the
  list of seats keeps its shape around that seat, and the seat has the reference that the
  sweep took.\<close>

lemma map_fst_sweep_run: "map fst (sweep_run st cs) = cs"
  by (induction cs arbitrary: st) simp_all

lemma sweep_run_append:
  "sweep_run st (cs1 @ cs2) = sweep_run st cs1 @ sweep_run (foldl sweep_call_run st cs1) cs2"
  by (induction cs1 arbitrary: st) simp_all

lemma path_input_disable_loop_is_run:
  "path_input_disable_loop st as = sweep_run st (map fst (path_input_disable_loop st as))"
proof (induction as arbitrary: st)
  case Nil
  then show ?case by simp
next
  case (Cons a as)
  let ?cs = "Seat_ref a # map Disable_device (seat_devices (libinput_seat_ref st a) a) @ [Seat_unref a]"
  have e: "path_input_disable_seat st a = foldl sweep_call_run st ?cs"
    unfolding path_input_disable_seat_def path_input_disable_seat_run_def sweep_end_sweep_run ..
  have "sweep_run st (?cs @ map fst (path_input_disable_loop (path_input_disable_seat st a) as)) =
      sweep_run st ?cs @ path_input_disable_loop (path_input_disable_seat st a) as"
    unfolding sweep_run_append e [symmetric] using Cons [of "path_input_disable_seat st a"] by simp
  then show ?case
    unfolding path_input_disable_loop.simps map_append path_input_disable_seat_run_def
      map_fst_sweep_run by (rule sym)
qed

lemma seat_devices_ref_shape:
  assumes shape: "seat_list st = pre @ s # post"
    and dist: "distinct (map seat_addr (seat_list st))"
  shows "seat_devices (libinput_seat_ref st (seat_addr s)) (seat_addr s) = devices_list s"
proof -
  let ?s1 = "s\<lparr>refcount := refcount s + 1\<rparr>"
  let ?st1 = "libinput_seat_ref st (seat_addr s)"
  have s1: "seat_list ?st1 = pre @ ?s1 # post"
    using shape dist by (rule seat_list_ref_shape)
  have d1: "distinct (map seat_addr (seat_list ?st1))"
    using s1 shape dist by simp
  show ?thesis
    using s1 d1 find_shape [of pre ?s1 post] by (simp add: seat_devices_def find_seat_def)
qed

lemma sweep_run_disable_shape:
  assumes "seat_list st = pre @ s # post"
    and "distinct (map seat_addr (seat_list st))"
    and "devices_list s = ds" "distinct (map dev_addr ds)"
    and "\<forall>d\<in>set ds. base_seat d = seat_addr s"
    and "length ds < refcount s"
  shows "list_all (\<lambda>(c, t). \<exists>d s'. c = Disable_device d \<and> base_seat d = seat_addr s \<and>
             seat_list t = pre @ s' # post \<and> seat_addr s' = seat_addr s \<and>
             length (devices_list s') < refcount s' \<and>
             dev_addr d \<notin> dev_addr ` set (devices_list s'))
           (sweep_run st (map Disable_device ds))"
  using assms
proof (induction ds arbitrary: st s)
  case Nil
  then show ?case by simp
next
  case (Cons d ds)
  let ?s = "s\<lparr>devices_list := ds, refcount := refcount s - 1\<rparr>"
  let ?st = "path_disable_device st d"
  have step: "seat_list ?st = pre @ ?s # post"
    using Cons.prems by (intro seat_list_path_disable_device_shape) auto
  have first: "base_seat d = seat_addr s \<and> seat_list ?st = pre @ ?s # post \<and>
      seat_addr ?s = seat_addr s \<and> length (devices_list ?s) < refcount ?s \<and>
      dev_addr d \<notin> dev_addr ` set (devices_list ?s)"
    using step Cons.prems(3,4,5,6) by auto
  have rest: "list_all (\<lambda>(c, t). \<exists>d s'. c = Disable_device d \<and> base_seat d = seat_addr ?s \<and>
             seat_list t = pre @ s' # post \<and> seat_addr s' = seat_addr ?s \<and>
             length (devices_list s') < refcount s' \<and>
             dev_addr d \<notin> dev_addr ` set (devices_list s'))
           (sweep_run ?st (map Disable_device ds))"
  proof (rule Cons.IH [OF step])
    show "distinct (map seat_addr (seat_list ?st))"
      using step Cons.prems(1,2) by simp
  qed (use Cons.prems in auto)
  show ?case
    using first rest by simp
qed

text \<open>What holds in the context that a call of the sweep leaves.\<close>

lemma seat_held_shape:
  assumes "seat_list t = pre @ s' # post" "length (devices_list s') < refcount s'"
  shows "seat_held t (seat_addr s')"
  using assms by (auto simp: seat_held_def)

lemma device_unlinked_shape:
  assumes "seat_list t = pre @ s' # post" "distinct (map seat_addr (pre @ s' # post))"
    and "base_seat d = seat_addr s'" "dev_addr d \<notin> dev_addr ` set (devices_list s')"
  shows "device_unlinked t d"
  unfolding device_unlinked_def
proof (intro ballI impI)
  fix x
  assume "x \<in> set (seat_list t)" "seat_addr x = base_seat d"
  then have "x = s'"
    using assms(1,2,3) by (auto simp: image_iff)
  then show "dev_addr d \<notin> dev_addr ` set (devices_list x)"
    using assms(4) by simp
qed

lemma seat_emptied_shape:
  assumes "seat_list t = pre @ new @ post" "distinct (map seat_addr (pre @ s # post))"
    and "\<forall>x\<in>set new. devices_list x = []"
  shows "seat_emptied t (seat_addr s)"
  unfolding seat_emptied_def
proof (intro ballI impI)
  fix x
  assume "x \<in> set (seat_list t)" "seat_addr x = seat_addr s"
  then have "x \<in> set new"
    using assms(1,2) by (auto simp: image_iff)
  then show "devices_list x = []"
    using assms(3) by simp
qed

lemma path_input_disable_seat_run_shape:
  assumes shape: "seat_list st = pre @ s # post"
    and dist: "distinct (map seat_addr (seat_list st))"
    and ws: "wf_seat n None s"
  shows "map fst (path_input_disable_seat_run st (seat_addr s)) =
           Seat_ref (seat_addr s) # map Disable_device (devices_list s) @ [Seat_unref (seat_addr s)]"
    and "list_all (\<lambda>(c, t). case c of
             Seat_ref a \<Rightarrow> seat_held t a
           | Disable_device d \<Rightarrow> seat_held t (base_seat d) \<and> device_unlinked t d
           | Seat_unref a \<Rightarrow> seat_emptied t a)
           (path_input_disable_seat_run st (seat_addr s))"
proof -
  let ?a = "seat_addr s"
  let ?s1 = "s\<lparr>refcount := refcount s + 1\<rparr>"
  let ?st1 = "libinput_seat_ref st ?a"
  let ?ds = "devices_list s"
  let ?ok = "\<lambda>(c, t). case c of
             Seat_ref a \<Rightarrow> seat_held t a
           | Disable_device d \<Rightarrow> seat_held t (base_seat d) \<and> device_unlinked t d
           | Seat_unref a \<Rightarrow> seat_emptied t a"
  have sd: "seat_devices ?st1 ?a = ?ds"
    using shape dist by (rule seat_devices_ref_shape)
  show "map fst (path_input_disable_seat_run st ?a) =
      Seat_ref ?a # map Disable_device ?ds @ [Seat_unref ?a]"
    unfolding path_input_disable_seat_run_def map_fst_sweep_run sd ..
  have s1: "seat_list ?st1 = pre @ ?s1 # post"
    using shape dist by (rule seat_list_ref_shape)
  have d1: "distinct (map seat_addr (seat_list ?st1))"
    using s1 shape dist by simp
  have dpre: "distinct (map seat_addr (pre @ s # post))"
    using shape dist by simp
  have run: "path_input_disable_seat_run st ?a =
      (Seat_ref ?a, ?st1) # sweep_run ?st1 (map Disable_device ?ds) @
      [(Seat_unref ?a, path_input_disable_seat st ?a)]"
    unfolding path_input_disable_seat_run_def sd
    by (simp add: sweep_run_append foldl_Disable_device path_input_disable_seat_fold Let_def sd)
  have r1: "seat_held ?st1 ?a"
    using seat_held_shape [OF s1] ws by (simp add: wf_seat_def)
  have "list_all (\<lambda>(c, t). \<exists>d s'. c = Disable_device d \<and> base_seat d = seat_addr ?s1 \<and>
             seat_list t = pre @ s' # post \<and> seat_addr s' = seat_addr ?s1 \<and>
             length (devices_list s') < refcount s' \<and>
             dev_addr d \<notin> dev_addr ` set (devices_list s'))
           (sweep_run ?st1 (map Disable_device ?ds))"
    using s1 d1 ws by (intro sweep_run_disable_shape) (auto simp: wf_seat_def list_all_iff)
  then have r2: "list_all ?ok (sweep_run ?st1 (map Disable_device ?ds))"
  proof (rule list.pred_mono_strong)
    fix x :: "sweep_call \<times> path_input"
    assume "case x of (c, t) \<Rightarrow> \<exists>d s'. c = Disable_device d \<and> base_seat d = seat_addr ?s1 \<and>
             seat_list t = pre @ s' # post \<and> seat_addr s' = seat_addr ?s1 \<and>
             length (devices_list s') < refcount s' \<and>
             dev_addr d \<notin> dev_addr ` set (devices_list s')"
    then obtain d t s' where x: "x = (Disable_device d, t)" and b: "base_seat d = seat_addr s'"
      and l: "seat_list t = pre @ s' # post" and a: "seat_addr s' = ?a"
      and h: "length (devices_list s') < refcount s'"
      and g: "dev_addr d \<notin> dev_addr ` set (devices_list s')"
      by (cases x) auto
    have "distinct (map seat_addr (pre @ s' # post))"
      using dpre a by simp
    then have "device_unlinked t d"
      using l b g by (intro device_unlinked_shape)
    moreover have "seat_held t (base_seat d)"
      unfolding b using l h by (rule seat_held_shape)
    ultimately show "?ok x"
      by (simp add: x)
  qed
  have "seat_list (path_input_disable_seat st ?a) =
      pre @ (if length ?ds < refcount s
             then [s\<lparr>refcount := refcount s - length ?ds, devices_list := []\<rparr>]
             else []) @ post"
    using shape dist ws by (rule seat_list_path_input_disable_seat_shape)
  then have r3: "seat_emptied (path_input_disable_seat st ?a) ?a"
    using dpre by (rule seat_emptied_shape) simp
  show "list_all ?ok (path_input_disable_seat_run st ?a)"
    unfolding run using r1 r2 r3 by simp
qed

lemma path_input_disable_loop_shape:
  assumes "seat_list st = acc @ todo"
    and "distinct (map seat_addr (seat_list st))"
    and "list_all (wf_seat n None) todo"
  shows "map fst (path_input_disable_loop st (map seat_addr todo)) =
           concat (map (\<lambda>s. Seat_ref (seat_addr s) # map Disable_device (devices_list s) @
                               [Seat_unref (seat_addr s)]) todo) \<and>
         list_all (\<lambda>(c, t). case c of
             Seat_ref a \<Rightarrow> seat_held t a
           | Disable_device d \<Rightarrow> seat_held t (base_seat d) \<and> device_unlinked t d
           | Seat_unref a \<Rightarrow> seat_emptied t a)
           (path_input_disable_loop st (map seat_addr todo))"
  using assms
proof (induction todo arbitrary: st acc)
  case Nil
  then show ?case by simp
next
  case (Cons s todo)
  let ?new = "if length (devices_list s) < refcount s
            then [s\<lparr>refcount := refcount s - length (devices_list s), devices_list := []\<rparr>]
            else []"
  let ?st = "path_input_disable_seat st (seat_addr s)"
  have ws: "wf_seat n None s"
    using Cons.prems(3) by simp
  note one = path_input_disable_seat_run_shape [OF Cons.prems(1,2) ws]
  have step: "seat_list ?st = (acc @ ?new) @ todo"
    using seat_list_path_input_disable_seat_shape [of st acc s todo n] Cons.prems by simp
  have rest: "map fst (path_input_disable_loop ?st (map seat_addr todo)) =
           concat (map (\<lambda>s. Seat_ref (seat_addr s) # map Disable_device (devices_list s) @
                               [Seat_unref (seat_addr s)]) todo) \<and>
         list_all (\<lambda>(c, t). case c of
             Seat_ref a \<Rightarrow> seat_held t a
           | Disable_device d \<Rightarrow> seat_held t (base_seat d) \<and> device_unlinked t d
           | Seat_unref a \<Rightarrow> seat_emptied t a)
           (path_input_disable_loop ?st (map seat_addr todo))"
  proof (rule Cons.IH [OF step])
    show "distinct (map seat_addr (seat_list ?st))"
      using step Cons.prems(1,2) by auto
  qed (use Cons.prems in simp)
  show ?case
    using one rest by simp
qed

text \<open>
  C5. Suspend disables everything. On a well-formed context the calls that
  \<open>path_input_disable\<close> makes are, for every seat of the registry in turn:
  \<^verbatim>\<open>libinput_seat_ref\<close> on the seat, \<^verbatim>\<open>path_disable_device\<close> on every device that the seat has,
  \<^verbatim>\<open>libinput_seat_unref\<close> on the seat (fourth conjunct), each call made in the context that
  the call before it left (fifth). After the reference is taken and after each device
  is disabled the seat is registered and holds a reference beyond those of its devices,
  and the device is out of the seat's list; after the release no seat at that address
  has a device (sixth). The function returns the context that the last of these calls
  leaves (seventh). In it the list of seats is the old one with every device gone and
  one reference dropped for each, the seats that nothing else refers to having been
  destroyed; so no seat holds a device, and the path list is what it was (first three).
\<close>

theorem path_input_disable_sweeps:
  assumes "wf_input st"
  shows "seat_list (path_input_disable st) = swept (seat_list st) \<and>
         list_all (\<lambda>s. devices_list s = []) (seat_list (path_input_disable st)) \<and>
         path_list (path_input_disable st) = path_list st \<and>
         map fst (path_input_disable_run st) =
           concat (map (\<lambda>s. Seat_ref (seat_addr s) # map Disable_device (devices_list s) @
                               [Seat_unref (seat_addr s)]) (seat_list st)) \<and>
         path_input_disable_run st = sweep_run st (map fst (path_input_disable_run st)) \<and>
         list_all (\<lambda>(c, t). case c of
             Seat_ref a \<Rightarrow> seat_held t a
           | Disable_device d \<Rightarrow> seat_held t (base_seat d) \<and> device_unlinked t d
           | Seat_unref a \<Rightarrow> seat_emptied t a)
           (path_input_disable_run st) \<and>
         path_input_disable st = sweep_end st (path_input_disable_run st)"
proof -
  have e: "seat_list (path_input_disable st) = swept (seat_list st)"
    using assms by (rule seat_list_path_input_disable)
  have em: "list_all (\<lambda>s. devices_list s = []) (swept (seat_list st))"
    by (simp add: swept_def list_all_iff)
  have "distinct (map seat_addr (seat_list st))"
    "list_all (wf_seat (next_addr st) None) (seat_list st)"
    using assms by (simp_all add: wf_input_def wf_held_def wf_seats_def)
  then have run: "map fst (path_input_disable_loop st (map seat_addr (seat_list st))) =
           concat (map (\<lambda>s. Seat_ref (seat_addr s) # map Disable_device (devices_list s) @
                               [Seat_unref (seat_addr s)]) (seat_list st)) \<and>
         list_all (\<lambda>(c, t). case c of
             Seat_ref a \<Rightarrow> seat_held t a
           | Disable_device d \<Rightarrow> seat_held t (base_seat d) \<and> device_unlinked t d
           | Seat_unref a \<Rightarrow> seat_emptied t a)
           (path_input_disable_loop st (map seat_addr (seat_list st)))"
    by (intro path_input_disable_loop_shape [of st "[]"]) simp_all
  have is_run: "path_input_disable_run st = sweep_run st (map fst (path_input_disable_run st))"
    unfolding path_input_disable_run_def by (rule path_input_disable_loop_is_run)
  have fin: "path_input_disable st = sweep_end st (path_input_disable_run st)"
    by (rule path_input_disable_def)
  have "seat_list (path_input_disable st) = swept (seat_list st) \<and>
         list_all (\<lambda>s. devices_list s = []) (seat_list (path_input_disable st)) \<and>
         path_list (path_input_disable st) = path_list st \<and>
         map fst (path_input_disable_run st) =
           concat (map (\<lambda>s. Seat_ref (seat_addr s) # map Disable_device (devices_list s) @
                               [Seat_unref (seat_addr s)]) (seat_list st)) \<and>
         path_input_disable_run st = sweep_run st (map fst (path_input_disable_run st)) \<and>
         list_all (\<lambda>(c, t). case c of
             Seat_ref a \<Rightarrow> seat_held t a
           | Disable_device d \<Rightarrow> seat_held t (base_seat d) \<and> device_unlinked t d
           | Seat_unref a \<Rightarrow> seat_emptied t a)
           (path_input_disable_run st)"
    using e em run is_run unfolding path_input_disable_run_def [symmetric] by simp
  with fin show ?thesis
    by blast
qed

lemma wf_input_ctx_referenced: "wf_input ctx_referenced"
  by (simp add: wf_input_def wf_held_def wf_seats_def wf_seat_def wf_paths_def
      ctx_referenced_def libinput_seat_ref_def update_seat_def ctx_event3_def
      dev_event3_def rec_event3_def)

lemma seat_list_ctx_referenced:
  "seat_list ctx_referenced =
     [\<lparr>seat_addr = 1, physical_name = ''seat0'', logical_name = ''default'',
       refcount = 2, devices_list = [dev_event3]\<rparr>]"
  by (simp add: ctx_referenced_def libinput_seat_ref_def update_seat_def ctx_event3_def)

lemma path_input_disable_run_ctx_event3:
  "map (\<lambda>(c, t). (c, seat_list t)) (path_input_disable_run ctx_event3) =
     [(Seat_ref 1, [\<lparr>seat_addr = 1, physical_name = ''seat0'', logical_name = ''default'',
                      refcount = 2, devices_list = [dev_event3]\<rparr>]),
      (Disable_device dev_event3,
         [\<lparr>seat_addr = 1, physical_name = ''seat0'', logical_name = ''default'',
           refcount = 1, devices_list = []\<rparr>]),
      (Seat_unref 1, [])]"
  by (simp add: path_input_disable_run_def path_input_disable_seat_run_def seat_devices_def
      find_seat_def libinput_seat_ref_def libinput_seat_unref_def update_seat_def
      path_disable_device_def evdev_device_remove_def Let_def ctx_event3_def dev_event3_def)

theorem path_input_disable_sweeps_witness:
  "wf_input ctx_event3 \<and>
   seat_list ctx_event3 =
     [\<lparr>seat_addr = 1, physical_name = ''seat0'', logical_name = ''default'',
       refcount = 1, devices_list = [dev_event3]\<rparr>] \<and>
   map (\<lambda>(c, t). (c, seat_list t)) (path_input_disable_run ctx_event3) =
     [(Seat_ref 1, [\<lparr>seat_addr = 1, physical_name = ''seat0'', logical_name = ''default'',
                      refcount = 2, devices_list = [dev_event3]\<rparr>]),
      (Disable_device dev_event3,
         [\<lparr>seat_addr = 1, physical_name = ''seat0'', logical_name = ''default'',
           refcount = 1, devices_list = []\<rparr>]),
      (Seat_unref 1, [])] \<and>
   seat_list (path_input_disable ctx_event3) = [] \<and>
   path_list (path_input_disable ctx_event3) = [rec_event3] \<and>
   wf_input ctx_referenced \<and>
   seat_list ctx_referenced =
     [\<lparr>seat_addr = 1, physical_name = ''seat0'', logical_name = ''default'',
       refcount = 2, devices_list = [dev_event3]\<rparr>] \<and>
   map fst (path_input_disable_run ctx_referenced) =
     [Seat_ref 1, Disable_device dev_event3, Seat_unref 1] \<and>
   seat_list (path_input_disable ctx_referenced) =
     [\<lparr>seat_addr = 1, physical_name = ''seat0'', logical_name = ''default'',
       refcount = 1, devices_list = []\<rparr>]"
proof -
  note a = path_input_disable_sweeps [OF wf_input_ctx_event3]
  note b = path_input_disable_sweeps [OF wf_input_ctx_referenced]
  have "seat_list (path_input_disable ctx_event3) = []"
    using a [THEN conjunct1] by (simp add: swept_def ctx_event3_def)
  moreover have "path_list (path_input_disable ctx_event3) = [rec_event3]"
    using a [THEN conjunct2, THEN conjunct2, THEN conjunct1] by (simp add: ctx_event3_def)
  moreover have "seat_list (path_input_disable ctx_referenced) =
     [\<lparr>seat_addr = 1, physical_name = ''seat0'', logical_name = ''default'',
       refcount = 1, devices_list = []\<rparr>]"
    using b [THEN conjunct1] by (simp add: swept_def seat_list_ctx_referenced)
  moreover have "map fst (path_input_disable_run ctx_referenced) =
     [Seat_ref 1, Disable_device dev_event3, Seat_unref 1]"
    using b [THEN conjunct2, THEN conjunct2, THEN conjunct2, THEN conjunct1]
    by (simp add: seat_list_ctx_referenced)
  moreover have "seat_list ctx_event3 =
     [\<lparr>seat_addr = 1, physical_name = ''seat0'', logical_name = ''default'',
       refcount = 1, devices_list = [dev_event3]\<rparr>]"
    by (simp add: ctx_event3_def)
  ultimately show ?thesis
    using wf_input_ctx_event3 wf_input_ctx_referenced seat_list_ctx_referenced
      path_input_disable_run_ctx_event3
    by simp
qed

section \<open>Seats are unique\<close>

lemma find_seats_attach:
  assumes "distinct (map seat_addr l)"
    and "find P l = Some s"
    and "\<And>x y. P (x\<lparr>refcount := y, devices_list := devices_list x @ [d]\<rparr>) = P x"
  shows "find P (seats_attach (seat_addr s) d l) =
         Some (s\<lparr>refcount := refcount s + 1, devices_list := devices_list s @ [d]\<rparr>)"
  using assms(1,2)
proof (induction l)
  case Nil
  then show ?case by simp
next
  case (Cons x l)
  show ?case
  proof (cases "P x")
    case True
    with Cons.prems have "x = s" by simp
    with True show ?thesis by (simp add: seats_attach_def assms(3))
  next
    case False
    with Cons.prems have f: "find P l = Some s" by simp
    then have "s \<in> set l"
      by (auto simp: find_Some_iff)
    then have "seat_addr x \<noteq> seat_addr s"
      using Cons.prems(1) by (auto simp: image_iff)
    moreover have "find P (seats_attach (seat_addr s) d l) =
         Some (s\<lparr>refcount := refcount s + 1, devices_list := devices_list s @ [d]\<rparr>)"
      using Cons.IH f Cons.prems(1) by simp
    ultimately show ?thesis
      using False by (simp add: seats_attach_def)
  qed
qed

lemma map_seat_key_seats_attach [simp]: "map seat_key (seats_attach a d l) = map seat_key l"
  by (induction l) (simp_all add: seats_attach_def seat_key_def)

lemma wf_input_reachable:
  assumes "libinput_path_create_context i k sd ep ft = Some st0"
  shows "wf_input (foldl api_step st0 cs)"
  using assms by (intro wf_input_foldl_api_step wf_input_create_context)

lemma path_device_enable_succeeds:
  assumes wf: "wf_input st"
    and en: "path_device_enable st dev ov = (Some d, st')"
  shows "case path_seat_get_named st default_seat
                (case ov of None \<Rightarrow> default_seat_name | Some n \<Rightarrow> n) of
           Some s \<Rightarrow>
             base_seat d = seat_addr s \<and> dev_addr d = next_addr st \<and>
             next_addr st' = Suc (next_addr st) \<and>
             seat_list st' = seats_attach (seat_addr s) d (seat_list st)
         | None \<Rightarrow>
             base_seat d = next_addr st \<and> dev_addr d = Suc (next_addr st) \<and>
             next_addr st' = Suc (Suc (next_addr st)) \<and>
             seat_list st' =
               \<lparr>seat_addr = next_addr st, physical_name = default_seat,
                 logical_name = (case ov of None \<Rightarrow> default_seat_name | Some n \<Rightarrow> n),
                 refcount = 1, devices_list = [d]\<rparr> # seat_list st"
proof -
  define lname where "lname = (case ov of None \<Rightarrow> default_seat_name | Some n \<Rightarrow> n)"
  define st1 where "st1 = (case ov of None \<Rightarrow> st\<lparr>calls := Suc (calls st)\<rparr> | Some n \<Rightarrow> st)"
  have en1: "path_device_enable st1 dev (Some lname) = (Some d, st')"
    using en by (cases ov) (auto simp: lname_def st1_def path_device_enable_None split: if_splits)
  have w1: "wf_input st1"
    using wf by (cases ov) (simp_all add: st1_def)
  have same: "path_seat_get_named st1 default_seat lname = path_seat_get_named st default_seat lname"
    "seat_list st1 = seat_list st" "next_addr st1 = next_addr st"
    by (cases ov; simp add: st1_def)+
  show ?thesis
  proof (cases "path_seat_get_named st default_seat lname")
    case None
    then show ?thesis
      using en1 path_device_enable_new [OF w1, of lname dev] same
      by (auto simp: lname_def [symmetric] split: evdev_outcome.splits)
  next
    case (Some s)
    then show ?thesis
      using en1 path_device_enable_existing [OF w1, of lname s dev] same
      by (auto simp: lname_def [symmetric] split: evdev_outcome.splits)
  qed
qed


lemma ctx_empty_created:
  "libinput_path_create_context True True (\<lambda>n. True) (\<lambda>n p. Evdev_created)
     (\<lambda>a. ''(freed)'') = Some ctx_empty"
  by (simp add: libinput_path_create_context_def ctx_empty_def)

lemma ctx_event3_reached: "ctx_event3 = foldl api_step ctx_empty [Add_device ''/dev/input/event3'']"
  by (simp add: add_event3)

lemma enable_event3_again:
  "path_device_enable ctx_event3 rec_event3 None =
     (Some \<lparr>dev_addr = 3, evdev_devnode = devnode rec_event3, evdev_sysname = ''event3'',
            base_seat = 1\<rparr>,
      ctx_event3\<lparr>calls := 4, next_addr := 4,
        seat_list := [\<lparr>seat_addr = 1, physical_name = ''seat0'', logical_name = ''default'',
                       refcount = 2,
                       devices_list = [dev_event3,
                         \<lparr>dev_addr = 3, evdev_devnode = devnode rec_event3,
                           evdev_sysname = ''event3'', base_seat = 1\<rparr>]\<rparr>]\<rparr>)"
  by (simp add: ctx_event3_def rec_event3_def dev_event3_def run_defs)

lemma enable_event3_alt:
  "path_device_enable ctx_event3 rec_event3 (Some ''alt'') =
     (Some \<lparr>dev_addr = 4, evdev_devnode = devnode rec_event3, evdev_sysname = ''event3'',
            base_seat = 3\<rparr>,
      ctx_event3\<lparr>calls := 3, next_addr := 5,
        seat_list := [\<lparr>seat_addr = 3, physical_name = ''seat0'', logical_name = ''alt'',
                       refcount = 1,
                       devices_list = [\<lparr>dev_addr = 4, evdev_devnode = devnode rec_event3,
                           evdev_sysname = ''event3'', base_seat = 3\<rparr>]\<rparr>,
                      \<lparr>seat_addr = 1, physical_name = ''seat0'', logical_name = ''default'',
                       refcount = 1, devices_list = [dev_event3]\<rparr>]\<rparr>)"
  by (simp add: ctx_event3_def rec_event3_def dev_event3_def run_defs)


section \<open>Removing a device\<close>

lemma path_list_remove_absent:
  "p \<notin> (\<lambda>r. ptr (devnode r)) ` set l \<Longrightarrow> path_list_remove l p = l"
  by (induction l) auto

lemma path_list_remove_filter:
  "distinct (map (\<lambda>r. ptr (devnode r)) l) \<Longrightarrow>
   path_list_remove l p = filter (\<lambda>r. ptr (devnode r) \<noteq> p) l"
proof (induction l)
  case Nil
  then show ?case by simp
next
  case (Cons r l)
  show ?case
  proof (cases "ptr (devnode r) = p")
    case True
    then have "p \<notin> (\<lambda>r. ptr (devnode r)) ` set l"
      using Cons.prems by auto
    then have "filter (\<lambda>r. ptr (devnode r) \<noteq> p) l = l"
      by (auto simp: filter_id_conv image_iff)
    with True show ?thesis by simp
  next
    case False
    with Cons show ?thesis by simp
  qed
qed

lemma length_path_list_remove:
  "p \<in> (\<lambda>r. ptr (devnode r)) ` set l \<Longrightarrow> Suc (length (path_list_remove l p)) = length l"
  by (induction l) auto

lemma find_seats_ref:
  "find (\<lambda>s. seat_addr s = a) (seats_ref a l) =
     map_option (\<lambda>s. s\<lparr>refcount := refcount s + 1\<rparr>) (find (\<lambda>s. seat_addr s = a) l)"
  by (induction l) (simp_all add: seats_ref_def)

lemma seats_unref_remove_ref:
  assumes "\<forall>x\<in>set l. 1 \<le> refcount x"
  shows "seats_unref a
      (filter (\<lambda>s. \<not> (seat_addr s = a \<and> refcount s = 0))
       (map (\<lambda>s. if seat_addr s = a
                 then s\<lparr>devices_list := filter (\<lambda>x. dev_addr x \<noteq> dev_addr d) (devices_list s),
                        refcount := refcount s - 1\<rparr>
                 else s) (seats_ref a l))) =
     seats_unref a (seats_detach a d l)"
proof -
  have m: "map (\<lambda>s. if seat_addr s = a
                 then s\<lparr>devices_list := filter (\<lambda>x. dev_addr x \<noteq> dev_addr d) (devices_list s),
                        refcount := refcount s - 1\<rparr>
                 else s) (seats_ref a l) = seats_detach a d l"
    unfolding seats_ref_def seats_detach_def map_map
    by (rule map_cong [OF refl]) simp
  have f: "filter (\<lambda>s. \<not> (seat_addr s = a \<and> refcount s = 0)) (seats_detach a d l) =
      seats_detach a d l"
    using assms by (induction l) (simp_all add: seats_detach_def)
  show ?thesis
    unfolding m f ..
qed

lemma seat_list_libinput_path_remove_device:
  assumes wf: "wf_input st" and be: "interface_backend st = Path_backend"
  shows "seat_list (libinput_path_remove_device st device) =
     (if \<exists>s\<in>set (seat_list st). seat_addr s = base_seat device \<and>
            dev_addr device \<in> dev_addr ` set (devices_list s)
      then seats_unref (base_seat device) (seats_detach (base_seat device) device (seat_list st))
      else seat_list st)"
proof -
  let ?a = "base_seat device"
  let ?st1 = "st\<lparr>path_list := path_list_remove (path_list st) (ptr (evdev_devnode device))\<rparr>"
  let ?st2 = "libinput_seat_ref ?st1 ?a"
  have rc: "\<forall>x\<in>set (seat_list st). 1 \<le> refcount x"
    and dist: "distinct (map seat_addr (seat_list st))"
    using wf by (auto simp: wf_input_def wf_held_def wf_seats_def list_all_iff wf_seat_def)
  have res: "libinput_path_remove_device st device =
      libinput_seat_unref (path_disable_device ?st2 device) ?a"
    using be by (simp add: libinput_path_remove_device_def Let_def)
  have f2: "find_seat ?st2 ?a =
      map_option (\<lambda>s. s\<lparr>refcount := refcount s + 1\<rparr>) (find_seat st ?a)"
    by (simp add: find_seat_def seat_list_seats_ref find_seats_ref)
  show ?thesis
  proof (cases "find_seat st ?a")
    case None
    then have no: "\<not> (\<exists>s\<in>set (seat_list st). seat_addr s = ?a \<and>
            dev_addr device \<in> dev_addr ` set (devices_list s))"
      by (auto simp: find_seat_def find_None_iff)
    have "path_disable_device ?st2 device = ?st2"
      using None f2 by (simp add: path_disable_device_def)
    then have "seat_list (libinput_path_remove_device st device) = seat_list st"
      using res seats_unref_ref [OF rc, of ?a]
      by (simp add: seat_list_seats_unref seat_list_seats_ref)
    then show ?thesis
      unfolding if_not_P [OF no] .
  next
    case (Some s)
    then have s: "s \<in> set (seat_list st)" "seat_addr s = ?a"
      by (auto simp: find_seat_def find_Some_iff)
    have only: "x = s" if "x \<in> set (seat_list st)" "seat_addr x = ?a" for x
      using find_seat_distinct [OF dist _ that] Some by (simp add: find_seat_def)
    show ?thesis
    proof (cases "dev_addr device \<in> dev_addr ` set (devices_list s)")
      case False
      then have no: "\<not> (\<exists>s\<in>set (seat_list st). seat_addr s = ?a \<and>
            dev_addr device \<in> dev_addr ` set (devices_list s))"
        using only by blast
      have "path_disable_device ?st2 device = ?st2"
        using Some f2 False by (simp add: path_disable_device_def)
      then have "seat_list (libinput_path_remove_device st device) = seat_list st"
        using res seats_unref_ref [OF rc, of ?a]
        by (simp add: seat_list_seats_unref seat_list_seats_ref)
      then show ?thesis
        unfolding if_not_P [OF no] .
    next
      case True
      then have yes: "\<exists>s\<in>set (seat_list st). seat_addr s = ?a \<and>
            dev_addr device \<in> dev_addr ` set (devices_list s)"
        using s by blast
      have "path_disable_device ?st2 device = evdev_device_remove ?st2 device"
        using Some f2 True by (simp add: path_disable_device_def)
      then have "seat_list (libinput_path_remove_device st device) =
          seats_unref ?a (seat_list (evdev_device_remove ?st2 device))"
        using res by (simp add: seat_list_seats_unref)
      also have "\<dots> = seats_unref ?a (seats_detach ?a device (seat_list st))"
        unfolding seat_list_evdev_device_remove seat_list_seats_ref
        using seats_unref_remove_ref [OF rc, of ?a device] by simp
      finally show ?thesis
        unfolding if_P [OF yes] .
    qed
  qed
qed

lemma seat_list_remove_unlinked:
  assumes wf: "wf_input st" and be: "interface_backend st = Path_backend"
    and no: "\<not> (\<exists>s\<in>set (seat_list st). seat_addr s = base_seat device \<and>
            dev_addr device \<in> dev_addr ` set (devices_list s))"
  shows "seat_list (libinput_path_remove_device st device) = seat_list st"
  using seat_list_libinput_path_remove_device [OF wf be, of device]
  unfolding if_not_P [OF no] .

lemma seat_list_remove_linked:
  assumes wf: "wf_input st" and be: "interface_backend st = Path_backend"
    and yes: "\<exists>s\<in>set (seat_list st). seat_addr s = base_seat device \<and>
            dev_addr device \<in> dev_addr ` set (devices_list s)"
  shows "seat_list (libinput_path_remove_device st device) =
     seats_unref (base_seat device) (seats_detach (base_seat device) device (seat_list st))"
  using seat_list_libinput_path_remove_device [OF wf be, of device]
  unfolding if_P [OF yes] .

lemma device_gone_after_detach:
  "list_all (\<lambda>s. seat_addr s = a \<longrightarrow> dev_addr device \<notin> dev_addr ` set (devices_list s))
     (seats_unref a (seats_detach a device l))"
  by (induction l) (auto simp add: seats_unref_def seats_detach_def)

lemma libinput_path_remove_device_fields:
  assumes "interface_backend st = Path_backend"
  shows "path_list (libinput_path_remove_device st device) =
           path_list_remove (path_list st) (ptr (evdev_devnode device))"
    and "interface_backend (libinput_path_remove_device st device) = interface_backend st"
    and "next_addr (libinput_path_remove_device st device) = next_addr st"
    and "calls (libinput_path_remove_device st device) = calls st"
    and "logged (libinput_path_remove_device st device) = logged st"
    and "strdup_succeeds (libinput_path_remove_device st device) = strdup_succeeds st"
    and "evdev_probe (libinput_path_remove_device st device) = evdev_probe st"
    and "freed_text (libinput_path_remove_device st device) = freed_text st"
  using assms by (simp_all add: libinput_path_remove_device_def Let_def)

text \<open>
  C3. Removal scans by devnode identity and is idempotent. In a well-formed context of
  this backend, \<open>libinput_path_remove_device\<close> unlinks the record whose devnode pointer
  is the device's: the path list afterwards is the old one without that record, one
  record shorter when there was a match and unchanged when there was none, every other
  record staying in place. Whether or not a record matched, the device is then not in
  the device list of its seat. Removing the same device once more changes nothing.
\<close>

theorem libinput_path_remove_device_scan:
  assumes wf: "wf_input st" and be: "interface_backend st = Path_backend"
  shows "path_list (libinput_path_remove_device st device) =
           filter (\<lambda>r. ptr (devnode r) \<noteq> ptr (evdev_devnode device)) (path_list st) \<and>
         (ptr (evdev_devnode device) \<in> (\<lambda>r. ptr (devnode r)) ` set (path_list st) \<longrightarrow>
            Suc (length (path_list (libinput_path_remove_device st device))) =
              length (path_list st)) \<and>
         (ptr (evdev_devnode device) \<notin> (\<lambda>r. ptr (devnode r)) ` set (path_list st) \<longrightarrow>
            path_list (libinput_path_remove_device st device) = path_list st) \<and>
         list_all (\<lambda>s. seat_addr s = base_seat device \<longrightarrow>
                      dev_addr device \<notin> dev_addr ` set (devices_list s))
           (seat_list (libinput_path_remove_device st device)) \<and>
         libinput_path_remove_device (libinput_path_remove_device st device) device =
           libinput_path_remove_device st device"
proof -
  let ?p = "ptr (evdev_devnode device)"
  let ?st' = "libinput_path_remove_device st device"
  have dp: "distinct (map (\<lambda>r. ptr (devnode r)) (path_list st))"
    using wf by (simp add: wf_input_def wf_held_def wf_paths_def)
  have pl: "path_list ?st' = filter (\<lambda>r. ptr (devnode r) \<noteq> ?p) (path_list st)"
    using be dp by (simp add: libinput_path_remove_device_fields path_list_remove_filter)
  have len: "Suc (length (path_list ?st')) = length (path_list st)"
    if "?p \<in> (\<lambda>r. ptr (devnode r)) ` set (path_list st)"
    using be that by (simp add: libinput_path_remove_device_fields length_path_list_remove)
  have same: "path_list ?st' = path_list st"
    if "?p \<notin> (\<lambda>r. ptr (devnode r)) ` set (path_list st)"
    using be that by (simp add: libinput_path_remove_device_fields path_list_remove_absent)
  have dist: "distinct (map seat_addr (seat_list st))"
    using wf by (simp add: wf_input_def wf_held_def wf_seats_def)
  have gone: "list_all (\<lambda>s. seat_addr s = base_seat device \<longrightarrow>
                      dev_addr device \<notin> dev_addr ` set (devices_list s)) (seat_list ?st')"
  proof (cases "\<exists>s\<in>set (seat_list st). seat_addr s = base_seat device \<and>
            dev_addr device \<in> dev_addr ` set (devices_list s)")
    case True
    show ?thesis
      unfolding seat_list_remove_linked [OF wf be True]
      by (rule device_gone_after_detach)
  next
    case False
    show ?thesis
      unfolding seat_list_remove_unlinked [OF wf be False]
      using False by (auto simp: list_all_iff)
  qed
  have wf': "wf_input ?st'"
    using wf by (rule wf_input_libinput_path_remove_device)
  have be': "interface_backend ?st' = Path_backend"
    using be by (simp add: libinput_path_remove_device_fields)
  have unlinked: "\<not> (\<exists>s\<in>set (seat_list ?st'). seat_addr s = base_seat device \<and>
            dev_addr device \<in> dev_addr ` set (devices_list s))"
    using gone by (auto simp: list_all_iff)
  have s2: "seat_list (libinput_path_remove_device ?st' device) = seat_list ?st'"
    using wf' be' unlinked by (rule seat_list_remove_unlinked)
  have dp': "distinct (map (\<lambda>r. ptr (devnode r)) (path_list ?st'))"
    using wf' by (simp add: wf_input_def wf_held_def wf_paths_def)
  have p2: "path_list (libinput_path_remove_device ?st' device) = path_list ?st'"
    using be' dp' pl by (simp add: libinput_path_remove_device_fields path_list_remove_filter)
  have idem: "libinput_path_remove_device ?st' device = ?st'"
    using be' s2 p2
    by (intro path_input.equality) (simp_all add: libinput_path_remove_device_fields)
  show ?thesis
    using pl len same gone idem by blast
qed

theorem libinput_path_remove_device_scan_witness:
  "wf_input ctx_event3 \<and> interface_backend ctx_event3 = Path_backend \<and>
   path_list ctx_event3 = [rec_event3] \<and>
   ptr (evdev_devnode dev_event3) = ptr (devnode rec_event3) \<and>
   path_list (libinput_path_remove_device ctx_event3 dev_event3) = [] \<and>
   seat_list (libinput_path_remove_device ctx_event3 dev_event3) = [] \<and>
   libinput_path_remove_device (libinput_path_remove_device ctx_event3 dev_event3) dev_event3 =
     libinput_path_remove_device ctx_event3 dev_event3"
proof -
  have be: "interface_backend ctx_event3 = Path_backend"
    by (simp add: ctx_event3_def)
  have sl: "seat_list (libinput_path_remove_device ctx_event3 dev_event3) = []"
    by (simp add: libinput_path_remove_device_def Let_def seat_list_seats_unref seat_list_seats_ref
        path_disable_device_def find_seat_def seat_list_evdev_device_remove ctx_event3_def
        seats_ref_def seats_unref_def dev_event3_def)
  show ?thesis
    using libinput_path_remove_device_scan [OF wf_input_ctx_event3 be, of dev_event3]
      wf_input_ctx_event3 be sl
    by (simp add: ctx_event3_def rec_event3_def dev_event3_def)
qed

section \<open>Resume\<close>

lemma path_device_enable_default:
  assumes wf: "wf_input st"
    and en: "path_device_enable st dev None = (Some d, st')"
  shows "default_seat_devices st' = default_seat_devices st @ [d]"
    and "next_addr st \<le> dev_addr d"
    and "next_addr st \<le> next_addr st'"
proof -
  have dist: "distinct (map seat_addr (seat_list st))"
    using wf by (simp add: wf_input_def wf_held_def wf_seats_def)
  note ok = path_device_enable_succeeds [OF wf en, simplified]
  show "default_seat_devices st' = default_seat_devices st @ [d]"
  proof (cases "path_seat_get_named st default_seat default_seat_name")
    case None
    then show ?thesis
      using ok by (simp add: default_seat_devices_def path_seat_get_named_def)
  next
    case (Some s)
    then have "path_seat_get_named st' default_seat default_seat_name =
        Some (s\<lparr>refcount := refcount s + 1, devices_list := devices_list s @ [d]\<rparr>)"
      using ok dist
        find_seats_attach [of "seat_list st"
          "\<lambda>s. physical_name s = default_seat \<and> logical_name s = default_seat_name" s d]
      by (simp add: path_seat_get_named_def)
    with Some show ?thesis
      by (simp add: default_seat_devices_def)
  qed
  show "next_addr st \<le> dev_addr d" "next_addr st \<le> next_addr st'"
    using ok by (cases "path_seat_get_named st default_seat default_seat_name"; simp)+
qed

lemma path_list_path_input_enable_loop:
  "path_list (snd (path_input_enable_loop st devs)) = path_list st"
proof (induction devs arbitrary: st)
  case Nil
  then show ?case by simp
next
  case (Cons dev devs)
  have p: "path_list (snd (path_device_enable st dev None)) = path_list st"
    by simp
  show ?case
  proof (cases "path_device_enable st dev None")
    case (Pair r st1)
    with p have "path_list st1 = path_list st" by simp
    with Pair Cons.IH [of st1] show ?thesis
      by (cases r) simp_all
  qed
qed

lemma swept_empty: "list_all (\<lambda>s. devices_list s = []) (swept l)"
  by (simp add: swept_def list_all_iff)

lemma path_input_enable_loop_result:
  assumes "wf_input st" and "path_input_enable_loop st devs = (rc, st')"
  shows "rc = 0 \<and>
           (\<exists>ds. default_seat_devices st' = default_seat_devices st @ ds \<and>
                 map evdev_devnode ds = map devnode devs \<and>
                 list_all (\<lambda>d. next_addr st \<le> dev_addr d) ds) \<and>
           next_addr st \<le> next_addr st'
         \<or> rc = - 1 \<and>
           list_all (\<lambda>s. devices_list s = []) (seat_list st') \<and>
           (\<exists>pre dev post st1. devs = pre @ dev # post \<and>
              path_input_enable_loop st pre = (0, st1) \<and>
              fst (path_device_enable st1 dev None) = None \<and>
              st' = path_input_disable (snd (path_device_enable st1 dev None)))"
  using assms
proof (induction devs arbitrary: st)
  case Nil
  then show ?case by simp
next
  case (Cons dev devs)
  obtain r st1 where en: "path_device_enable st dev None = (r, st1)"
    by (cases "path_device_enable st dev None")
  have w1: "wf_input st1"
    using wf_input_path_device_enable [OF Cons.prems(1), of dev None] en by simp
  show ?case
  proof (cases r)
    case None
    then have st': "st' = path_input_disable st1" and rc: "rc = - 1"
      using Cons.prems(2) en by simp_all
    have "list_all (\<lambda>s. devices_list s = []) (seat_list st')"
      unfolding st' seat_list_path_input_disable [OF w1] by (rule swept_empty)
    moreover have "dev # devs = [] @ dev # devs \<and>
              path_input_enable_loop st [] = (0, st) \<and>
              fst (path_device_enable st dev None) = None \<and>
              st' = path_input_disable (snd (path_device_enable st dev None))"
      using en None st' by simp
    ultimately show ?thesis
      using rc by blast
  next
    case (Some d)
    then have rest: "path_input_enable_loop st1 devs = (rc, st')"
      using Cons.prems(2) en by simp
    have en': "path_device_enable st dev None = (Some d, st1)"
      using en Some by simp
    note one = path_device_enable_default [OF Cons.prems(1) en']
    have dn: "evdev_devnode d = devnode dev"
      using path_device_enable_device [of st dev None d] en' by simp
    from Cons.IH [OF w1 rest] show ?thesis
    proof (elim disjE conjE exE)
      fix ds
      assume rc: "rc = 0"
        and a: "default_seat_devices st' = default_seat_devices st1 @ ds"
        and b: "map evdev_devnode ds = map devnode devs"
        and c: "list_all (\<lambda>d. next_addr st1 \<le> dev_addr d) ds"
        and n: "next_addr st1 \<le> next_addr st'"
      have "default_seat_devices st' = default_seat_devices st @ (d # ds)"
        using a one(1) by simp
      moreover have "map evdev_devnode (d # ds) = map devnode (dev # devs)"
        using b dn by simp
      moreover have "list_all (\<lambda>d. next_addr st \<le> dev_addr d) (d # ds)"
        using c one(2,3) by (auto simp: list_all_iff)
      moreover have "next_addr st \<le> next_addr st'"
        using n one(3) by simp
      ultimately show ?thesis
        using rc by blast
    next
      fix pre dev' post st2
      assume rc: "rc = - 1"
        and e: "list_all (\<lambda>s. devices_list s = []) (seat_list st')"
        and sp: "devs = pre @ dev' # post"
        and lp: "path_input_enable_loop st1 pre = (0, st2)"
        and f: "fst (path_device_enable st2 dev' None) = None"
        and s: "st' = path_input_disable (snd (path_device_enable st2 dev' None))"
      have "dev # devs = (dev # pre) @ dev' # post"
        using sp by simp
      moreover have "path_input_enable_loop st (dev # pre) = (0, st2)"
        using lp en' by simp
      ultimately show ?thesis
        using rc e f s by blast
    qed
  qed
qed

text \<open>
  C1. Resume is all-or-nothing. On a well-formed context \<open>path_input_enable\<close> leaves
  the path list alone and ends in one of two ways. Either it returns 0, and then it
  has created one device for every registered record, in the order of the path list,
  each on the seat that a missing override resolves to (the devices of that seat are
  the old ones followed by the new ones, whose devnodes are those of the records). Or
  it returns -1: the records before some record were enabled, enabling that record
  yielded no device, the sweep of \<open>path_input_disable\<close> ran on the context reached
  there, and no seat holds a device afterwards.
\<close>

theorem path_input_enable_all_or_nothing:
  assumes "wf_input st" and "path_input_enable st = (rc, st')"
  shows "path_list st' = path_list st \<and>
        (rc = 0 \<and>
           (\<exists>ds. default_seat_devices st' = default_seat_devices st @ ds \<and>
                 map evdev_devnode ds = map devnode (path_list st) \<and>
                 list_all (\<lambda>d. next_addr st \<le> dev_addr d) ds)
         \<or> rc = - 1 \<and>
           list_all (\<lambda>s. devices_list s = []) (seat_list st') \<and>
           (\<exists>pre dev post st1. path_list st = pre @ dev # post \<and>
              path_input_enable_loop st pre = (0, st1) \<and>
              fst (path_device_enable st1 dev None) = None \<and>
              st' = path_input_disable (snd (path_device_enable st1 dev None))))"
proof -
  have l: "path_input_enable_loop st (path_list st) = (rc, st')"
    using assms(2) by (simp add: path_input_enable_def)
  have "path_list st' = path_list st"
    using path_list_path_input_enable_loop [of st "path_list st"] l by simp
  then show ?thesis
    using path_input_enable_loop_result [OF assms(1) l] by blast
qed

lemmas sweep_defs = path_input_disable_fold path_input_disable_seat_fold seat_devices_def
  find_seat_def path_disable_device_def evdev_device_remove_def

lemma resume_suspended:
  "path_input_enable ctx_suspended =
     (0, ctx_suspended\<lparr>calls := 4, next_addr := 5,
          seat_list := [\<lparr>seat_addr = 3, physical_name = ''seat0'', logical_name = ''default'',
                         refcount = 1,
                         devices_list = [\<lparr>dev_addr = 4, evdev_devnode = devnode rec_event3,
                            evdev_sysname = ''event3'', base_seat = 3\<rparr>]\<rparr>]\<rparr>)"
  by (simp add: path_input_enable_def ctx_suspended_def ctx_event3_def rec_event3_def run_defs)

lemma resume_unhandled:
  "path_input_enable ctx_unhandled =
     (- 1, ctx_unhandled\<lparr>calls := 4, seat_list := [],
             logged := [(LOG_INFO, Not_using_input_device, ''event3'', ''/dev/input/event3'')]\<rparr>)"
  by (simp add: path_input_enable_def ctx_unhandled_def ctx_event3_def rec_event3_def
      dev_event3_def run_defs sweep_defs)

lemma wf_input_ctx_unhandled: "wf_input ctx_unhandled"
  using wf_input_ctx_event3 by (simp add: ctx_unhandled_def wf_input_def wf_held_def)

lemma wf_input_ctx_suspended: "wf_input ctx_suspended"
  using wf_input_ctx_event3
  by (simp add: ctx_suspended_def wf_input_def wf_held_def wf_seats_def)

theorem path_input_enable_all_or_nothing_witness:
  "wf_input ctx_suspended \<and>
   fst (path_input_enable ctx_suspended) = 0 \<and>
   path_list (snd (path_input_enable ctx_suspended)) = [rec_event3] \<and>
   default_seat_devices (snd (path_input_enable ctx_suspended)) =
     [\<lparr>dev_addr = 4, evdev_devnode = devnode rec_event3, evdev_sysname = ''event3'',
       base_seat = 3\<rparr>] \<and>
   wf_input ctx_unhandled \<and>
   map (\<lambda>s. length (devices_list s)) (seat_list ctx_unhandled) = [1] \<and>
   fst (path_input_enable ctx_unhandled) = - 1 \<and>
   seat_list (snd (path_input_enable ctx_unhandled)) = [] \<and>
   path_list (snd (path_input_enable ctx_unhandled)) = [rec_event3]"
proof -
  note a = path_input_enable_all_or_nothing [OF wf_input_ctx_suspended resume_suspended]
  note b = path_input_enable_all_or_nothing [OF wf_input_ctx_unhandled resume_unhandled]
  have "path_list (snd (path_input_enable ctx_suspended)) = [rec_event3]"
    using a unfolding resume_suspended by (simp add: ctx_suspended_def ctx_event3_def)
  moreover have "default_seat_devices (snd (path_input_enable ctx_suspended)) =
     [\<lparr>dev_addr = 4, evdev_devnode = devnode rec_event3, evdev_sysname = ''event3'',
       base_seat = 3\<rparr>]"
    unfolding resume_suspended
    by (simp add: default_seat_devices_def path_seat_get_named_def
        default_seat_def default_seat_name_def)
  moreover have "path_list (snd (path_input_enable ctx_unhandled)) = [rec_event3]"
    using b unfolding resume_unhandled by (simp add: ctx_unhandled_def ctx_event3_def)
  moreover have "map (\<lambda>s. length (devices_list s)) (seat_list ctx_unhandled) = [1]"
    by (simp add: ctx_unhandled_def ctx_event3_def)
  ultimately show ?thesis
    using wf_input_ctx_suspended wf_input_ctx_unhandled
    unfolding resume_suspended resume_unhandled by simp
qed

section \<open>Moving a device to another seat\<close>

lemma wf_input_devices:
  assumes "wf_input st" "s \<in> set (seat_list st)" "d \<in> set (devices_list s)"
  shows "dev_addr d < next_addr st" "base_seat d = seat_addr s"
  using assms by (auto simp: wf_input_def wf_held_def wf_seats_def wf_seat_def list_all_iff)

lemma path_device_enable_None_seats:
  assumes wf: "wf_input st" and none: "fst (path_device_enable st dev ov) = None"
  shows "seat_list (snd (path_device_enable st dev ov)) = seat_list st"
proof -
  have named: "seat_list (snd (path_device_enable st1 dev (Some lname))) = seat_list st1"
    if w: "wf_input st1" and n: "fst (path_device_enable st1 dev (Some lname)) = None"
    for st1 lname
  proof -
    have "evdev_probe st1 (calls st1) (chars (devnode dev)) \<noteq> Evdev_created"
      using n path_device_enable_existing [OF w, of lname _ dev]
        path_device_enable_new [OF w, of lname dev]
      by (cases "path_seat_get_named st1 default_seat lname") auto
    then show ?thesis
      using w by (intro path_device_enable_fails)
  qed
  show ?thesis
  proof (cases ov)
    case (Some n)
    then show ?thesis using named [OF wf, of n] none by simp
  next
    case None
    show ?thesis
    proof (cases "strdup_succeeds st (calls st)")
      case False
      then show ?thesis using None by (simp add: path_device_enable_None)
    next
      case True
      then show ?thesis
        using None none named [of "st\<lparr>calls := Suc (calls st)\<rparr>" default_seat_name] wf
        by (simp add: path_device_enable_None)
    qed
  qed
qed

lemma wf_input_link_record:
  assumes "wf_input st"
  shows "wf_input (st\<lparr>next_addr := Suc (next_addr st),
            path_list := \<lparr>devnode = \<lparr>ptr = next_addr st, chars = dn\<rparr>, sysname = sn\<rparr> #
              path_list st\<rparr>)"
  using assms
  by (auto simp: wf_input_def wf_held_def wf_paths_def list_all_iff intro: wf_seats_mono)

lemma path_list_after_remove:
  assumes wf: "wf_input st" and be: "interface_backend st = Path_backend"
  shows "path_list (libinput_path_remove_device st device) =
           filter (\<lambda>r. ptr (devnode r) \<noteq> ptr (evdev_devnode device)) (path_list st)"
proof -
  have "distinct (map (\<lambda>r. ptr (devnode r)) (path_list st))"
    using wf by (simp add: wf_input_def wf_held_def wf_paths_def)
  then show ?thesis
    using be by (simp add: libinput_path_remove_device_fields path_list_remove_filter)
qed

lemma device_gone_after_remove:
  assumes wf: "wf_input st" and be: "interface_backend st = Path_backend"
  shows "list_all (\<lambda>s. seat_addr s = base_seat device \<longrightarrow>
                      dev_addr device \<notin> dev_addr ` set (devices_list s))
           (seat_list (libinput_path_remove_device st device))"
proof (cases "\<exists>s\<in>set (seat_list st). seat_addr s = base_seat device \<and>
            dev_addr device \<in> dev_addr ` set (devices_list s)")
  case True
  show ?thesis
    unfolding seat_list_remove_linked [OF wf be True]
    by (rule device_gone_after_detach)
next
  case False
  show ?thesis
    unfolding seat_list_remove_unlinked [OF wf be False]
    using False by (auto simp: list_all_iff)
qed

lemma gone_seats_attach:
  assumes "list_all (\<lambda>s. seat_addr s = a \<longrightarrow> x \<notin> dev_addr ` set (devices_list s)) l"
    and "dev_addr d \<noteq> x"
  shows "list_all (\<lambda>s. seat_addr s = a \<longrightarrow> x \<notin> dev_addr ` set (devices_list s))
           (seats_attach b d l)"
  using assms by (induction l) (auto simp: seats_attach_def)

lemma in_seats_attach:
  assumes "s \<in> set l" "seat_addr s = b"
  shows "\<exists>s'\<in>set (seats_attach b d l). d \<in> set (devices_list s')"
  using assms by (induction l) (auto simp: seats_attach_def)

text \<open>The context that \<open>path_device_change_seat\<close> has built when it is about to free
  its copy of the devnode string.\<close>

lemma change_seat_before_free:
  assumes wf: "wf_input st" and be: "interface_backend st = Path_backend"
    and enabled: "\<exists>s\<in>set (seat_list st). device \<in> set (devices_list s)"
    and res: "path_create_device (libinput_path_remove_device (st\<lparr>calls := Suc (calls st)\<rparr>) device)
                (chars (evdev_devnode device)) sn = (created, st')"
    and ret: "rc = (if created = None then - 1 else (0::int))"
  shows "(rc = 0 \<or> rc = - 1) \<and>
     path_list st' =
       (if rc = 0
        then [\<lparr>devnode = \<lparr>ptr = next_addr st, chars = chars (evdev_devnode device)\<rparr>,
               sysname = (case strrchr (chars (evdev_devnode device)) (CHR ''/'') of
                            Some r \<Rightarrow> tl r | None \<Rightarrow> [])\<rparr>]
        else []) @
       filter (\<lambda>r. ptr (devnode r) \<noteq> ptr (evdev_devnode device)) (path_list st) \<and>
     list_all (\<lambda>s. seat_addr s = base_seat device \<longrightarrow>
                  dev_addr device \<notin> dev_addr ` set (devices_list s)) (seat_list st') \<and>
     (rc = 0 \<longleftrightarrow> (\<exists>s\<in>set (seat_list st'). \<exists>d\<in>set (devices_list s). next_addr st \<le> dev_addr d)) \<and>
     (rc = 0 \<longrightarrow>
        (\<exists>s. path_seat_get_named st' default_seat
               (case sn of None \<Rightarrow> default_seat_name | Some n \<Rightarrow> n) = Some s \<and>
             devices_list s \<noteq> [] \<and>
             evdev_devnode (last (devices_list s)) =
               \<lparr>ptr = next_addr st, chars = chars (evdev_devnode device)\<rparr> \<and>
             next_addr st \<le> dev_addr (last (devices_list s)))) \<and>
     (\<forall>d. created = Some d \<longrightarrow>
        evdev_devnode d = \<lparr>ptr = next_addr st, chars = chars (evdev_devnode device)\<rparr>)"
proof -
  define dn where "dn = chars (evdev_devnode device)"
  define short where "short = (case strrchr dn (CHR ''/'') of Some r \<Rightarrow> tl r | None \<Rightarrow> [])"
  define lname where "lname = (case sn of None \<Rightarrow> default_seat_name | Some n \<Rightarrow> n)"
  define st1 where "st1 = st\<lparr>calls := Suc (calls st)\<rparr>"
  define st2 where "st2 = libinput_path_remove_device st1 device"
  define rec where "rec = \<lparr>devnode = \<lparr>ptr = next_addr st, chars = dn\<rparr>, sysname = short\<rparr>"
  define st3 where "st3 = st2\<lparr>next_addr := Suc (next_addr st2), path_list := rec # path_list st2\<rparr>"
  define r where "r = path_device_enable st3 rec sn"
  have w1: "wf_input st1" and b1: "interface_backend st1 = Path_backend"
    using wf be by (simp_all add: st1_def)
  have w2: "wf_input st2"
    unfolding st2_def using w1 by (rule wf_input_libinput_path_remove_device)
  have n2: "next_addr st2 = next_addr st"
    using b1 by (simp add: st2_def libinput_path_remove_device_fields st1_def)
  have w3: "wf_input st3"
    unfolding st3_def rec_def n2 [symmetric] using w2 by (rule wf_input_link_record)
  have p2: "path_list st2 =
      filter (\<lambda>r. ptr (devnode r) \<noteq> ptr (evdev_devnode device)) (path_list st)"
    unfolding st2_def path_list_after_remove [OF w1 b1] by (simp add: st1_def)
  have g2: "list_all (\<lambda>s. seat_addr s = base_seat device \<longrightarrow>
                  dev_addr device \<notin> dev_addr ` set (devices_list s)) (seat_list st2)"
    unfolding st2_def using w1 b1 by (rule device_gone_after_remove)
  have old: "dev_addr d < next_addr st" if "s \<in> set (seat_list st2)" "d \<in> set (devices_list s)" for s d
    using wf_input_devices(1) [OF w2 that] n2 by simp
  have dev_old: "dev_addr device < next_addr st"
    using enabled wf_input_devices(1) [OF wf] by blast
  have c: "path_create_device st2 dn sn = (created, st')"
    using res by (simp add: st1_def st2_def dn_def)
  have pc: "path_create_device st2 dn sn =
      (fst r, if fst r = None then (snd r)\<lparr>path_list := path_list st2\<rparr> else snd r)"
    unfolding r_def st3_def rec_def short_def n2 [symmetric]
    using path_create_device_unfold [of st2 dn sn] by (simp add: Let_def)
  have cr: "created = fst r"
    using c unfolding pc by simp
  have out: "rc = (if fst r = None then - 1 else 0)"
    "st' = (if fst r = None then (snd r)\<lparr>path_list := path_list st2\<rparr> else snd r)"
    using c ret unfolding pc by auto
  have s3: "seat_list st3 = seat_list st2"
    by (simp add: st3_def)
  show ?thesis
  proof (cases "fst r")
    case None
    have sl: "seat_list st' = seat_list st2"
      using None out path_device_enable_None_seats [OF w3, of rec sn] s3
      by (simp add: r_def)
    have pl: "path_list st' = path_list st2"
      using None out by simp
    have "\<not> (\<exists>s\<in>set (seat_list st'). \<exists>d\<in>set (devices_list s). next_addr st \<le> dev_addr d)"
      unfolding sl using old by (auto simp: not_le)
    then show ?thesis
      using None out(1) pl p2 g2 sl cr by simp
  next
    case (Some d)
    then have en: "path_device_enable st3 rec sn = (Some d, st')"
      using out by (simp add: r_def prod_eq_iff)
    have rc: "rc = 0" using Some out by simp
    have pl: "path_list st' = rec # path_list st2"
      using en path_device_enable_fields(1) [of st3 rec sn] by (simp add: st3_def)
    have dv: "evdev_devnode d = devnode rec"
      using path_device_enable_device [of st3 rec sn d] en by simp
    have dist: "distinct (map seat_addr (seat_list st3))"
      using w3 by (simp add: wf_input_def wf_held_def wf_seats_def)
    note ok = path_device_enable_succeeds [OF w3 en, folded lname_def]
    have n3: "next_addr st3 = Suc (next_addr st)"
      by (simp add: st3_def n2)
    have facts: "next_addr st \<le> dev_addr d \<and> dev_addr d \<noteq> dev_addr device \<and>
        list_all (\<lambda>s. seat_addr s = base_seat device \<longrightarrow>
                  dev_addr device \<notin> dev_addr ` set (devices_list s)) (seat_list st') \<and>
        (\<exists>s\<in>set (seat_list st'). d \<in> set (devices_list s)) \<and>
        (\<exists>s. path_seat_get_named st' default_seat lname = Some s \<and>
             devices_list s \<noteq> [] \<and> last (devices_list s) = d)"
    proof (cases "path_seat_get_named st3 default_seat lname")
      case None
      then have a: "dev_addr d = Suc (next_addr st3)"
        and l: "seat_list st' = \<lparr>seat_addr = next_addr st3, physical_name = default_seat,
                 logical_name = lname, refcount = 1, devices_list = [d]\<rparr> # seat_list st3"
        using ok by simp_all
      have "dev_addr d \<noteq> dev_addr device"
        using a n3 dev_old by simp
      moreover have "next_addr st \<le> dev_addr d"
        using a n3 by simp
      moreover have "path_seat_get_named st' default_seat lname =
          Some \<lparr>seat_addr = next_addr st3, physical_name = default_seat,
                 logical_name = lname, refcount = 1, devices_list = [d]\<rparr>"
        by (simp add: path_seat_get_named_def l)
      ultimately show ?thesis
        using g2 by (simp add: l s3)
    next
      case (Some s)
      then have a: "dev_addr d = next_addr st3"
        and l: "seat_list st' = seats_attach (seat_addr s) d (seat_list st3)"
        using ok by simp_all
      have ne: "dev_addr d \<noteq> dev_addr device"
        using a n3 dev_old by simp
      have "s \<in> set (seat_list st3)"
        using Some by (auto simp: path_seat_get_named_def find_Some_iff)
      then have ex: "\<exists>s\<in>set (seat_list st'). d \<in> set (devices_list s)"
        unfolding l by (intro in_seats_attach) simp_all
      have "path_seat_get_named st' default_seat lname =
          Some (s\<lparr>refcount := refcount s + 1, devices_list := devices_list s @ [d]\<rparr>)"
        using Some dist l
          find_seats_attach [of "seat_list st3"
            "\<lambda>s. physical_name s = default_seat \<and> logical_name s = lname" s d]
        by (simp add: path_seat_get_named_def)
      moreover have "list_all (\<lambda>s. seat_addr s = base_seat device \<longrightarrow>
                  dev_addr device \<notin> dev_addr ` set (devices_list s)) (seat_list st')"
        unfolding l s3 using g2 ne by (rule gone_seats_attach)
      ultimately show ?thesis
        using ne ex a n3 by simp
    qed
    then have "\<exists>s\<in>set (seat_list st'). \<exists>d\<in>set (devices_list s). next_addr st \<le> dev_addr d"
      by blast
    then show ?thesis
      using rc pl p2 facts dv cr Some
      by (auto simp: rec_def dn_def short_def lname_def)
  qed
qed

text \<open>What the \<^verbatim>\<open>free\<close> changes: only what is read through the two sysname pointers.\<close>

lemma freed_text_path_create_device:
  "freed_text (snd (path_create_device st dn sn)) = freed_text st"
  by (simp add: path_create_device_def Let_def split_beta split: option.splits)

lemma freed_text_libinput_path_remove_device:
  "freed_text (libinput_path_remove_device st device) = freed_text st"
  by (simp add: libinput_path_remove_device_def Let_def)

lemma gone_forget:
  assumes "list_all (\<lambda>s. seat_addr s = a \<longrightarrow> x \<notin> dev_addr ` set (devices_list s)) l"
  shows "list_all (\<lambda>s. seat_addr s = a \<longrightarrow> x \<notin> dev_addr ` set (devices_list s))
     (map (\<lambda>s. s\<lparr>devices_list := map (forget_device_sysname p junk) (devices_list s)\<rparr>) l)"
  using assms by (induction l) (simp_all add: image_image)

lemma new_devices_forget:
  "(\<exists>s\<in>set (map (\<lambda>s. s\<lparr>devices_list := map (forget_device_sysname p junk) (devices_list s)\<rparr>) l).
      \<exists>d\<in>set (devices_list s). n \<le> dev_addr d) \<longleftrightarrow>
   (\<exists>s\<in>set l. \<exists>d\<in>set (devices_list s). n \<le> dev_addr d)"
  by (induction l) simp_all

lemma path_seat_get_named_forget:
  assumes "path_seat_get_named st a b = Some s"
  shows "path_seat_get_named (forget_sysname p junk st) a b =
     Some (s\<lparr>devices_list := map (forget_device_sysname p junk) (devices_list s)\<rparr>)"
proof -
  have f: "find (\<lambda>s. physical_name s = a \<and> logical_name s = b)
          (map (\<lambda>s. s\<lparr>devices_list := map (forget_device_sysname p junk) (devices_list s)\<rparr>) l) =
        map_option (\<lambda>s. s\<lparr>devices_list := map (forget_device_sysname p junk) (devices_list s)\<rparr>)
          (find (\<lambda>s. physical_name s = a \<and> logical_name s = b) l)" for l
    by (induction l) simp_all
  show ?thesis
    unfolding path_seat_get_named_def forget_sysname_fields f
    using assms [unfolded path_seat_get_named_def] by simp
qed

lemma forget_record_sysname_old:
  assumes "list_all (\<lambda>r. ptr (devnode r) < p) l"
  shows "map (forget_record_sysname p junk) l = l"
  using assms by (induction l) (simp_all add: forget_record_sysname_def)

lemma path_device_change_seat_dup:
  assumes wf: "wf_input st" and be: "interface_backend st = Path_backend"
    and enabled: "\<exists>s\<in>set (seat_list st). device \<in> set (devices_list s)"
    and dup: "strdup_succeeds st (calls st)"
    and res: "path_device_change_seat st device sn = (rc, st')"
  shows "(rc = 0 \<or> rc = - 1) \<and>
     path_list st' =
       (if rc = 0
        then [\<lparr>devnode = \<lparr>ptr = next_addr st, chars = chars (evdev_devnode device)\<rparr>,
               sysname = (case strrchr (chars (evdev_devnode device)) (CHR ''/'') of
                            Some r \<Rightarrow> freed_text st (next_addr st) | None \<Rightarrow> [])\<rparr>]
        else []) @
       filter (\<lambda>r. ptr (devnode r) \<noteq> ptr (evdev_devnode device)) (path_list st) \<and>
     list_all (\<lambda>s. seat_addr s = base_seat device \<longrightarrow>
                  dev_addr device \<notin> dev_addr ` set (devices_list s)) (seat_list st') \<and>
     (rc = 0 \<longleftrightarrow> (\<exists>s\<in>set (seat_list st'). \<exists>d\<in>set (devices_list s). next_addr st \<le> dev_addr d)) \<and>
     (rc = 0 \<longrightarrow>
        (\<exists>s. path_seat_get_named st' default_seat
               (case sn of None \<Rightarrow> default_seat_name | Some n \<Rightarrow> n) = Some s \<and>
             devices_list s \<noteq> [] \<and>
             evdev_devnode (last (devices_list s)) =
               \<lparr>ptr = next_addr st, chars = chars (evdev_devnode device)\<rparr> \<and>
             next_addr st \<le> dev_addr (last (devices_list s))))"
proof -
  define dn where "dn = chars (evdev_devnode device)"
  define lname where "lname = (case sn of None \<Rightarrow> default_seat_name | Some n \<Rightarrow> n)"
  define st2 where "st2 = libinput_path_remove_device (st\<lparr>calls := Suc (calls st)\<rparr>) device"
  define created where "created = fst (path_create_device st2 dn sn)"
  define st3 where "st3 = snd (path_create_device st2 dn sn)"
  define rest where "rest = filter (\<lambda>r. ptr (devnode r) \<noteq> ptr (evdev_devnode device)) (path_list st)"
  have pc: "path_create_device (libinput_path_remove_device (st\<lparr>calls := Suc (calls st)\<rparr>) device)
              (chars (evdev_devnode device)) sn = (created, st3)"
    by (simp add: created_def st3_def st2_def dn_def)
  have out: "rc = (if created = None then - 1 else 0)" "st' = free_devnode_copy st3 dn created"
    using res dup
    by (simp_all add: path_device_change_seat_def strdup_def Let_def split_beta
        st2_def dn_def created_def st3_def)
  note b = change_seat_before_free [OF wf be enabled pc out(1), folded dn_def lname_def rest_def]
  have ft: "freed_text st3 = freed_text st"
    by (simp add: st3_def st2_def freed_text_path_create_device
        freed_text_libinput_path_remove_device)
  have "list_all (\<lambda>r. ptr (devnode r) < next_addr st) (path_list st)"
    using wf by (simp add: wf_input_def wf_held_def wf_paths_def)
  then have old: "list_all (\<lambda>r. ptr (devnode r) < next_addr st) rest"
    by (simp add: rest_def list_all_iff)
  have goal: "(rc = 0 \<or> rc = - 1) \<and>
     path_list st' =
       (if rc = 0
        then [\<lparr>devnode = \<lparr>ptr = next_addr st, chars = dn\<rparr>,
               sysname = (case strrchr dn (CHR ''/'') of
                            Some r \<Rightarrow> freed_text st (next_addr st) | None \<Rightarrow> [])\<rparr>]
        else []) @ rest \<and>
     list_all (\<lambda>s. seat_addr s = base_seat device \<longrightarrow>
                  dev_addr device \<notin> dev_addr ` set (devices_list s)) (seat_list st') \<and>
     (rc = 0 \<longleftrightarrow> (\<exists>s\<in>set (seat_list st'). \<exists>d\<in>set (devices_list s). next_addr st \<le> dev_addr d)) \<and>
     (rc = 0 \<longrightarrow>
        (\<exists>s. path_seat_get_named st' default_seat lname = Some s \<and>
             devices_list s \<noteq> [] \<and>
             evdev_devnode (last (devices_list s)) = \<lparr>ptr = next_addr st, chars = dn\<rparr> \<and>
             next_addr st \<le> dev_addr (last (devices_list s))))"
  proof (cases "created = None \<or> strrchr dn (CHR ''/'') = None")
    case True
    then have same: "st' = st3"
      using out(2) by (auto simp: free_devnode_copy_def split: option.splits)
    show ?thesis
      unfolding same using b True out(1) by auto
  next
    case False
    then obtain d r where cr: "created = Some d" and sep: "strrchr dn (CHR ''/'') = Some r"
      by auto
    have p: "ptr (evdev_devnode d) = next_addr st"
      using b cr by simp
    define junk where "junk = freed_text st (next_addr st)"
    have st': "st' = forget_sysname (next_addr st) junk st3"
      using out(2) cr sep p ft by (simp add: free_devnode_copy_def junk_def)
    have rc: "rc = 0"
      using out(1) cr by simp
    have pl3: "path_list st3 = \<lparr>devnode = \<lparr>ptr = next_addr st, chars = dn\<rparr>, sysname = tl r\<rparr> # rest"
      using b rc sep by simp
    have c2: "path_list st' = \<lparr>devnode = \<lparr>ptr = next_addr st, chars = dn\<rparr>, sysname = junk\<rparr> # rest"
      unfolding st' using old
      by (simp add: pl3 forget_record_sysname_old) (simp add: forget_record_sysname_def)
    have c3: "list_all (\<lambda>s. seat_addr s = base_seat device \<longrightarrow>
                  dev_addr device \<notin> dev_addr ` set (devices_list s)) (seat_list st')"
      unfolding st' forget_sysname_fields using b by (intro gone_forget) blast
    have c4: "\<exists>s\<in>set (seat_list st'). \<exists>d\<in>set (devices_list s). next_addr st \<le> dev_addr d"
      unfolding st' forget_sysname_fields new_devices_forget using b rc by blast
    obtain s where s: "path_seat_get_named st3 default_seat lname = Some s"
        "devices_list s \<noteq> []"
        "evdev_devnode (last (devices_list s)) = \<lparr>ptr = next_addr st, chars = dn\<rparr>"
        "next_addr st \<le> dev_addr (last (devices_list s))"
      using b rc by blast
    have c5: "\<exists>s. path_seat_get_named st' default_seat lname = Some s \<and>
             devices_list s \<noteq> [] \<and>
             evdev_devnode (last (devices_list s)) = \<lparr>ptr = next_addr st, chars = dn\<rparr> \<and>
             next_addr st \<le> dev_addr (last (devices_list s))"
      unfolding st' path_seat_get_named_forget [OF s(1)]
      using s(2,3,4) by (simp add: last_map)
    show ?thesis
      using rc c2 c3 c4 c5 sep by (simp add: junk_def)
  qed
  then show ?thesis
    unfolding dn_def lname_def rest_def .
qed

lemma ctx_exhausted_reached:
  "libinput_path_add_device (ctx_empty\<lparr>strdup_succeeds := (\<lambda>n. n < 2)\<rparr>) ''/dev/input/event3'' =
     (Some dev_event3, ctx_exhausted)"
  by (simp add: ctx_exhausted_def ctx_empty_def ctx_event3_def dev_event3_def rec_event3_def
      run_defs)



lemmas free_defs = free_devnode_copy_def forget_sysname_def forget_record_sysname_def
  forget_device_sysname_def

lemma change_seat_event3:
  "path_device_change_seat ctx_event3 dev_event3 (Some ''alt'') =
     (0, ctx_event3\<lparr>calls := 4, next_addr := 6,
           path_list := [\<lparr>devnode = \<lparr>ptr = 3, chars = ''/dev/input/event3''\<rparr>,
                           sysname = ''(freed)''\<rparr>],
           seat_list := [\<lparr>seat_addr = 4, physical_name = ''seat0'', logical_name = ''alt'',
                           refcount = 1,
                           devices_list = [\<lparr>dev_addr = 5,
                              evdev_devnode = \<lparr>ptr = 3, chars = ''/dev/input/event3''\<rparr>,
                              evdev_sysname = ''(freed)'', base_seat = 4\<rparr>]\<rparr>]\<rparr>)"
  by (simp add: path_device_change_seat_def libinput_path_remove_device_def
      ctx_event3_def dev_event3_def rec_event3_def run_defs sweep_defs free_defs)

lemma change_seat_unhandled:
  "path_device_change_seat ctx_unhandled dev_event3 (Some ''alt'') =
     (- 1, ctx_unhandled\<lparr>calls := 4, next_addr := 5, path_list := [], seat_list := [],
             logged := [(LOG_INFO, Not_using_input_device, ''event3'', ''/dev/input/event3'')]\<rparr>)"
  by (simp add: path_device_change_seat_def libinput_path_remove_device_def
      ctx_unhandled_def ctx_event3_def dev_event3_def rec_event3_def run_defs sweep_defs
      free_defs)


section \<open>The devnode of a record\<close>


lemma path_list_path_create_device:
  "path_list (snd (path_create_device st dn sn)) = path_list st \<or>
   (\<exists>r. chars (devnode r) = dn \<and> path_list (snd (path_create_device st dn sn)) = r # path_list st)"
  by (simp add: path_create_device_unfold Let_def)

lemma path_list_remove_keeps:
  "list_all Q l \<Longrightarrow> list_all Q (path_list_remove l p)"
  using set_path_list_remove [of l p] by (auto simp: list_all_iff)

lemma path_list_libinput_path_remove_device:
  "list_all Q (path_list st) \<Longrightarrow> list_all Q (path_list (libinput_path_remove_device st device))"
  by (cases "interface_backend st = Path_backend")
    (simp_all add: libinput_path_remove_device_def Let_def path_list_remove_keeps)

lemma path_list_free_devnode_copy:
  "list_all (\<lambda>r. chars (devnode r) \<noteq> []) (path_list st) \<Longrightarrow>
   list_all (\<lambda>r. chars (devnode r) \<noteq> []) (path_list (free_devnode_copy st dn created))"
  by (simp add: free_devnode_copy_def list_all_iff split: option.splits)

lemma path_list_path_input_enable:
  "path_list (snd (path_input_enable st)) = path_list st"
  by (simp add: path_input_enable_def path_list_path_input_enable_loop)

lemma nonempty_api_step:
  assumes inv: "list_all (\<lambda>r. chars (devnode r) \<noteq> []) (path_list st)"
    and ok: "nonempty_path_call c"
  shows "list_all (\<lambda>r. chars (devnode r) \<noteq> []) (path_list (api_step st c))"
proof (cases c)
  case (Add_device path)
  then show ?thesis
    using inv ok path_list_path_create_device [of st path None]
    by (auto simp: libinput_path_add_device_def)
next
  case (Remove_device device)
  then show ?thesis
    using inv by (simp add: path_list_libinput_path_remove_device)
next
  case (Change_seat device sn)
  let ?st1 = "st\<lparr>calls := Suc (calls st)\<rparr>"
  have "list_all (\<lambda>r. chars (devnode r) \<noteq> [])
      (path_list (libinput_path_remove_device ?st1 device))"
    using inv by (intro path_list_libinput_path_remove_device) simp
  then have "list_all (\<lambda>r. chars (devnode r) \<noteq> [])
      (path_list (snd (path_create_device (libinput_path_remove_device ?st1 device)
         (chars (evdev_devnode device)) sn)))"
    using ok Change_seat
      path_list_path_create_device [of "libinput_path_remove_device ?st1 device"
        "chars (evdev_devnode device)" sn]
    by auto
  then show ?thesis
    using inv Change_seat
    by (simp add: path_device_change_seat_def strdup_def Let_def split_beta
        path_list_free_devnode_copy)
next
  case Resume
  then show ?thesis
    using inv by (simp add: path_input_enable_def path_list_path_input_enable_loop)
next
  case Suspend
  then show ?thesis
    using inv by simp
qed

text \<open>
  C9, as the claim states it, fails: \<open>path_create_device\<close> stores the caller's path
  without looking at it. Adding the empty path to a fresh context whose adapter accepts
  it (the adapter opens the node through the caller's own callback) succeeds and
  leaves a record with an empty devnode in the path list.
\<close>

theorem empty_devnode_counterexample:
  "fst (libinput_path_add_device ctx_empty []) =
     Some \<lparr>dev_addr = 2, evdev_devnode = \<lparr>ptr = 0, chars = []\<rparr>, evdev_sysname = [],
           base_seat = 1\<rparr> \<and>
   path_list (snd (libinput_path_add_device ctx_empty [])) =
     [\<lparr>devnode = \<lparr>ptr = 0, chars = []\<rparr>, sysname = []\<rparr>]"
  by (simp add: ctx_empty_def run_defs)

text \<open>
  C9, amended. The devnode of a record is a copy of the string that the call which
  created it was given. In every context reached from a fresh one by calls that hand
  over no empty string (as the path to add, or in the device whose seat is to change),
  every record of the path list has a non-empty devnode.
\<close>

theorem devnode_nonempty:
  assumes "libinput_path_create_context i k sd ep ft = Some st0"
    and "list_all nonempty_path_call cs"
  shows "list_all (\<lambda>r. chars (devnode r) \<noteq> []) (path_list (foldl api_step st0 cs))"
proof -
  have "list_all (\<lambda>r. chars (devnode r) \<noteq> []) (path_list st0)"
    using assms(1) by (auto simp: libinput_path_create_context_def split: if_splits)
  then show ?thesis
    using assms(2)
  proof (induction cs arbitrary: st0)
    case Nil
    then show ?case by simp
  next
    case (Cons c cs)
    then show ?case
      using nonempty_api_step [of st0 c] by simp
  qed
qed

theorem devnode_nonempty_witness:
  "libinput_path_create_context True True (\<lambda>n. True) (\<lambda>n p. Evdev_created)
     (\<lambda>a. ''(freed)'') = Some ctx_empty \<and>
   list_all nonempty_path_call [Add_device ''/dev/input/event3'', Suspend, Resume] \<and>
   map devnode (path_list (foldl api_step ctx_empty
      [Add_device ''/dev/input/event3'', Suspend, Resume])) =
     [\<lparr>ptr = 0, chars = ''/dev/input/event3''\<rparr>]"
proof -
  have n: "list_all nonempty_path_call [Add_device ''/dev/input/event3'', Suspend, Resume]"
    by simp
  have "path_list (foldl api_step ctx_empty [Add_device ''/dev/input/event3'', Suspend, Resume]) =
      [rec_event3]"
    by (simp add: add_event3 path_list_path_input_enable ctx_event3_def)
  then show ?thesis
    using devnode_nonempty [OF ctx_empty_created n] ctx_empty_created n
    by (simp add: rec_event3_def)
qed

end
